theory Spec2Isabelle
  imports Main "HOL-Library.Sublist"
begin

section \<open>Python values used by the feed monitor\<close>

text \<open>
  A key of a raw feed entry (a \<^verbatim>\<open>Mapping[str, Any]\<close>) is absent, holds \<^verbatim>\<open>None\<close>, or holds
  a value. The two ways of reading it differ on an absent key only:
  \<^verbatim>\<open>entry.get(k)\<close> gives \<^verbatim>\<open>None\<close>, \<^verbatim>\<open>entry.get(k, d)\<close> gives \<^verbatim>\<open>d\<close>.
  A Python value that is a \<^verbatim>\<open>str\<close> or \<^verbatim>\<open>None\<close> is a \<open>string option\<close>.
\<close>

datatype 'a field = Missing | Null | Present 'a

fun dict_get :: "'a field \<Rightarrow> 'a option" where
  "dict_get Missing = None"
| "dict_get Null = None"
| "dict_get (Present v) = Some v"

fun dict_get_default :: "'a field \<Rightarrow> 'a \<Rightarrow> 'a option" where
  "dict_get_default Missing d = Some d"
| "dict_get_default Null d = None"
| "dict_get_default (Present v) d = Some v"

text \<open>Truth value of a \<^verbatim>\<open>str\<close> or \<^verbatim>\<open>None\<close>: false for \<^verbatim>\<open>None\<close> and for the empty string.\<close>

fun truthy :: "string option \<Rightarrow> bool" where
  "truthy None = False"
| "truthy (Some s) = (s \<noteq> [])"

text \<open>\<^verbatim>\<open>a or b\<close>: the left operand when it is true, the right operand otherwise.\<close>

definition py_or :: "string option \<Rightarrow> string option \<Rightarrow> string option" where
  "py_or a b = (if truthy a then a else b)"

text \<open>\<^verbatim>\<open>a or b\<close> for values that are \<^verbatim>\<open>None\<close> or always true (a \<^verbatim>\<open>struct_time\<close>).\<close>

definition py_or_time :: "int option \<Rightarrow> int option \<Rightarrow> int option" where
  "py_or_time a b = (case a of Some t \<Rightarrow> Some t | None \<Rightarrow> b)"

text \<open>What an f-string writes for a \<^verbatim>\<open>str\<close> or \<^verbatim>\<open>None\<close>.\<close>

fun py_format :: "string option \<Rightarrow> string" where
  "py_format None = ''None''"
| "py_format (Some s) = s"

text \<open>
  A Python \<^verbatim>\<open>str\<close> is a \<open>string\<close>: its characters in UTF-8, so that an ASCII character
  is itself. Being empty, concatenation, equality and containment (\<^verbatim>\<open>in\<close>) of Python
  strings are those of these lists.

  \<^verbatim>\<open>str.lower()\<close> is a function of the Python runtime, with the case mapping of Unicode. A
  function of the program that calls it takes it as its first argument \<open>lower\<close>, and a
  property stated with \<open>lower\<close> holds for whatever \<^verbatim>\<open>str.lower()\<close> is.
\<close>

type_synonym lowering = "string \<Rightarrow> string"

text \<open>
  What \<^verbatim>\<open>str.lower()\<close> does to a string of ASCII characters (codes below 128): the
  letters \<^verbatim>\<open>A\<close>..\<^verbatim>\<open>Z\<close> (codes 65 to 90) get bit 5 set, which adds 32, and every other
  character is kept. \<open>lowers_ascii lower\<close> says that \<open>lower\<close> does so.
\<close>

definition ascii_lower_char :: "char \<Rightarrow> char" where
  "ascii_lower_char c =
     (if 65 \<le> (of_char c :: nat) \<and> (of_char c :: nat) \<le> 90
      then (case c of Char b0 b1 b2 b3 b4 b5 b6 b7 \<Rightarrow> Char b0 b1 b2 b3 b4 True b6 b7)
      else c)"

definition ascii_lower :: lowering where
  "ascii_lower s = map ascii_lower_char s"

definition ascii :: "string \<Rightarrow> bool" where
  "ascii s = list_all (\<lambda>c. (of_char c :: nat) < 128) s"

definition lowers_ascii :: "lowering \<Rightarrow> bool" where
  "lowers_ascii lower = (\<forall>s. ascii s \<longrightarrow> lower s = ascii_lower s)"

text \<open>\<^verbatim>\<open>k in s\<close> on strings: \<open>k\<close> starts at some position of \<open>s\<close>.\<close>

fun py_in :: "string \<Rightarrow> string \<Rightarrow> bool" where
  "py_in k [] = (k = [])"
| "py_in k (c # cs) = (prefix k (c # cs) \<or> py_in k cs)"

text \<open>\<^verbatim>\<open>sep.join(parts)\<close>.\<close>

fun join :: "string \<Rightarrow> string list \<Rightarrow> string" where
  "join sep [] = []"
| "join sep [p] = p"
| "join sep (p # q # ps) = p @ sep @ join sep (q # ps)"

datatype error =
    ValueError string
  | HTTPError string
  | IntegrityError string
  | OtherError string


section \<open>fetchers.py\<close>

text \<open>
  A raw entry as feedparser hands it over, by the keys \<^verbatim>\<open>_entry_to_dict\<close> reads. The text
  keys hold strings; \<^verbatim>\<open>content\<close> holds a list of dicts, each given by what it has under
  \<^verbatim>\<open>value\<close>; a \<^verbatim>\<open>*_parsed\<close> key holds a \<^verbatim>\<open>struct_time\<close>, given by its
  \<^verbatim>\<open>calendar.timegm\<close> seconds.
\<close>

record raw_entry =
  raw_link :: "string field"
  raw_id :: "string field"
  raw_guid :: "string field"
  raw_title :: "string field"
  raw_summary :: "string field"
  raw_content :: "string field list field"
  raw_published_parsed :: "int field"
  raw_updated_parsed :: "int field"
  raw_created_parsed :: "int field"

text \<open>The dict \<^verbatim>\<open>_entry_to_dict\<close> returns; its text values are Python values.\<close>

record entry =
  entry_title :: "string option"
  entry_link :: "string option"
  entry_summary :: "string option"
  entry_uid :: "string option"
  entry_published_at :: int

text \<open>\<open>now\<close> is what \<^verbatim>\<open>datetime.now(timezone.utc)\<close> returns.\<close>

definition entry_to_dict :: "int \<Rightarrow> raw_entry \<Rightarrow> string \<Rightarrow> entry" where
  "entry_to_dict now entry source =
     (let link = py_or (py_or (dict_get (raw_link entry)) (dict_get (raw_id entry))) (Some '''');
          uid = py_or (py_or (py_or (dict_get (raw_id entry)) (dict_get (raw_guid entry))) link)
                  (Some (source @ '':'' @ py_format (dict_get_default (raw_title entry) '''')));
          summary0 = dict_get (raw_summary entry);
          summary =
            (if \<not> truthy summary0
             then (case dict_get (raw_content entry) of
                     Some (c # cs) \<Rightarrow> dict_get c
                   | _ \<Rightarrow> summary0)
             else summary0);
          published_struct =
            py_or_time (py_or_time (dict_get (raw_published_parsed entry))
                                   (dict_get (raw_updated_parsed entry)))
                       (dict_get (raw_created_parsed entry));
          published_at = (case published_struct of Some t \<Rightarrow> t | None \<Rightarrow> now)
      in \<lparr>entry_title = py_or (dict_get (raw_title entry)) (Some ''''),
          entry_link = link,
          entry_summary = summary,
          entry_uid = uid,
          entry_published_at = published_at\<rparr>)"

text \<open>
  The network: what the GET of a feed URL and the parse of its body give, an exception
  (transport failure, bad status) or the parsed entries. An effectful call returns its
  result and the list of the GET requests it issued.
\<close>

type_synonym network = "string \<Rightarrow> error + raw_entry list"

type_synonym 'a io = "'a \<times> string list"

definition fetch_and_parse :: "network \<Rightarrow> string \<Rightarrow> (error + raw_entry list) io" where
  "fetch_and_parse net feed_url = (net feed_url, [feed_url])"

definition fetch_generic_feed ::
  "network \<Rightarrow> int \<Rightarrow> string \<Rightarrow> string \<Rightarrow> (error + entry list) io" where
  "fetch_generic_feed net now feed_url source =
     (case fetch_and_parse net feed_url of
        (Inl err, reqs) \<Rightarrow> (Inl err, reqs)
      | (Inr entries, reqs) \<Rightarrow> (Inr (map (\<lambda>entry. entry_to_dict now entry source) entries), reqs))"

definition fetch_v2ex_feed :: "network \<Rightarrow> int \<Rightarrow> string \<Rightarrow> (error + entry list) io" where
  "fetch_v2ex_feed net now feed_url = fetch_generic_feed net now feed_url ''v2ex''"

definition fetch_nodeseek_feed :: "network \<Rightarrow> int \<Rightarrow> string \<Rightarrow> (error + entry list) io" where
  "fetch_nodeseek_feed net now feed_url = fetch_generic_feed net now feed_url ''nodeseek''"

definition fetch_linux_do_feed :: "network \<Rightarrow> int \<Rightarrow> string \<Rightarrow> (error + entry list) io" where
  "fetch_linux_do_feed net now feed_url = fetch_generic_feed net now feed_url ''linux.do''"

definition fetchers ::
  "string \<rightharpoonup> (network \<Rightarrow> int \<Rightarrow> string \<Rightarrow> (error + entry list) io)" where
  "fetchers = map_of [(''v2ex'', fetch_v2ex_feed),
                      (''nodeseek'', fetch_nodeseek_feed),
                      (''linux.do'', fetch_linux_do_feed)]"

definition fetch_feed ::
  "lowering \<Rightarrow> network \<Rightarrow> int \<Rightarrow> string \<Rightarrow> string \<Rightarrow> (error + entry list) io" where
  "fetch_feed lower net now source feed_url =
     (case fetchers (lower source) of
        None \<Rightarrow> (Inl (ValueError (''Unsupported source: '' @ source)), [])
      | Some fetcher \<Rightarrow> fetcher net now feed_url)"

definition match_keywords :: "lowering \<Rightarrow> string option \<Rightarrow> string list \<Rightarrow> bool" where
  "match_keywords lower text keywords =
     (if keywords = [] then True
      else if \<not> truthy text then False
      else (case text of
              None \<Rightarrow> False
            | Some t \<Rightarrow> list_ex (\<lambda>keyword. py_in (lower keyword) (lower t)) keywords))"


section \<open>models.py: the tables\<close>

text \<open>
  Rows of the three tables. A \<^verbatim>\<open>nullable=False\<close> column has the type of its values, a
  nullable one an option. The \<^verbatim>\<open>keywords\<close> column is JSON, whose value may be the JSON
  \<^verbatim>\<open>null\<close> (Python \<^verbatim>\<open>None\<close>). Times are seconds.
\<close>

record topic =
  topic_id :: nat
  topic_name :: string
  topic_source :: string
  topic_feed_url :: string
  topic_keywords :: "string list option"
  topic_is_active :: bool
  topic_created_at :: int
  topic_updated_at :: int

record post =
  post_id :: nat
  post_topic_id :: nat
  post_title :: string
  post_content :: "string option"
  post_link :: string
  post_uid :: string
  post_published_at :: int
  post_is_pushed :: bool
  post_created_at :: int

record push_log =
  log_id :: nat
  log_post_id :: nat
  log_status :: string
  log_message :: "string option"
  log_created_at :: int

record db =
  topics :: "topic list"
  posts :: "post list"
  push_logs :: "push_log list"

text \<open>The next value of an integer primary key.\<close>

definition next_id :: "nat list \<Rightarrow> nat" where
  "next_id ids = Suc (fold max ids 0)"

text \<open>
  A session is one transaction: \<open>working\<close> is what its own queries see (its flushed
  changes included), \<open>committed\<close> is what is persisted.
\<close>

record session =
  committed :: db
  working :: db

definition SessionLocal :: "db \<Rightarrow> session" where
  "SessionLocal d = \<lparr>committed = d, working = d\<rparr>"

definition commit :: "session \<Rightarrow> session" where
  "commit s = s\<lparr>committed := working s\<rparr>"

definition rollback :: "session \<Rightarrow> session" where
  "rollback s = s\<lparr>working := committed s\<rparr>"

text \<open>
  A \<^verbatim>\<open>models.Post(...)\<close> instance before it is flushed: the attributes the task sets,
  which are Python values. The flush inserts the row, and fails on a \<^verbatim>\<open>None\<close> in a
  \<^verbatim>\<open>nullable=False\<close> column and on a uid that a row already has (\<^verbatim>\<open>uq_posts_uid\<close>).
  These are the constraints of the table that are modelled; the length limits of its
  \<^verbatim>\<open>String\<close> columns are not. \<open>now\<close> is the server's time, for \<^verbatim>\<open>created_at\<close>.
\<close>

record post_obj =
  obj_topic_id :: nat
  obj_title :: "string option"
  obj_content :: "string option"
  obj_link :: "string option"
  obj_uid :: "string option"
  obj_published_at :: int

definition add_and_flush_post :: "int \<Rightarrow> post_obj \<Rightarrow> session \<Rightarrow> error + (session \<times> nat)" where
  "add_and_flush_post now p s =
     (case (obj_title p, obj_link p, obj_uid p) of
        (Some title, Some link, Some uid) \<Rightarrow>
          if uid \<in> set (map post_uid (posts (working s)))
          then Inl (IntegrityError ''UNIQUE constraint failed: posts.uid'')
          else
            (let new_id = next_id (map post_id (posts (working s)));
                 row = \<lparr>post_id = new_id,
                        post_topic_id = obj_topic_id p,
                        post_title = title,
                        post_content = obj_content p,
                        post_link = link,
                        post_uid = uid,
                        post_published_at = obj_published_at p,
                        post_is_pushed = False,
                        post_created_at = now\<rparr>
             in Inr (s\<lparr>working := (working s)\<lparr>posts := posts (working s) @ [row]\<rparr>\<rparr>, new_id))
      | _ \<Rightarrow> Inl (IntegrityError ''NOT NULL constraint failed''))"

definition add_push_log :: "int \<Rightarrow> nat \<Rightarrow> string \<Rightarrow> session \<Rightarrow> session" where
  "add_push_log now pid status s =
     (let row = \<lparr>log_id = next_id (map log_id (push_logs (working s))),
                 log_post_id = pid,
                 log_status = status,
                 log_message = None,
                 log_created_at = now\<rparr>
      in s\<lparr>working := (working s)\<lparr>push_logs := push_logs (working s) @ [row]\<rparr>\<rparr>)"


section \<open>tasks.py\<close>

definition get_active_topics :: "session \<Rightarrow> topic list" where
  "get_active_topics s = filter topic_is_active (topics (working s))"

text \<open>
  \<^verbatim>\<open>Post.uid == None\<close> selects no row of a \<^verbatim>\<open>nullable=False\<close> column; the unique
  constraint leaves at most one row for a uid.
\<close>

definition uid_exists :: "session \<Rightarrow> string option \<Rightarrow> bool" where
  "uid_exists s uid =
     (case uid of
        None \<Rightarrow> False
      | Some u \<Rightarrow> u \<in> set (map post_uid (posts (working s))))"

fun truthy_parts :: "string option list \<Rightarrow> string list" where
  "truthy_parts [] = []"
| "truthy_parts (part # parts) =
     (case part of
        None \<Rightarrow> truthy_parts parts
      | Some s \<Rightarrow> if s = [] then truthy_parts parts else s # truthy_parts parts)"

definition should_keep_entry :: "lowering \<Rightarrow> entry \<Rightarrow> string list option \<Rightarrow> bool" where
  "should_keep_entry lower e keywords =
     (let text_parts = [entry_title e, entry_summary e];
          combined = join '' '' (truthy_parts text_parts);
          keyword_list = (case keywords of
                            None \<Rightarrow> []
                          | Some ks \<Rightarrow> if ks = [] then [] else ks)
      in match_keywords lower (Some combined) keyword_list)"

record stats =
  topics_checked :: nat
  posts_created :: nat
  duplicates :: nat

text \<open>
  The body of the inner loop for one entry. An exception leaves the loops with the
  session as it is at that point: the result is the error, if any, the session and the
  counters.
\<close>

definition process_entry ::
  "lowering \<Rightarrow> int \<Rightarrow> topic \<Rightarrow> entry \<Rightarrow> session \<times> stats \<Rightarrow> error option \<times> session \<times> stats" where
  "process_entry lower now t e st =
     (case st of (s, stats) \<Rightarrow>
        (let uid = entry_uid e in
         if uid_exists s uid
         then (None, s, stats\<lparr>duplicates := duplicates stats + 1\<rparr>)
         else if \<not> should_keep_entry lower e (topic_keywords t)
         then (None, s, stats)
         else
           (case add_and_flush_post now
                   \<lparr>obj_topic_id = topic_id t,
                    obj_title = entry_title e,
                    obj_content = entry_summary e,
                    obj_link = entry_link e,
                    obj_uid = uid,
                    obj_published_at = entry_published_at e\<rparr> s of
              Inl err \<Rightarrow> (Some err, s, stats)
            | Inr (s', pid) \<Rightarrow>
                (None, add_push_log now pid ''pending'' s',
                 stats\<lparr>posts_created := posts_created stats + 1\<rparr>))))"

fun process_entries ::
  "lowering \<Rightarrow> int \<Rightarrow> topic \<Rightarrow> entry list \<Rightarrow> session \<times> stats \<Rightarrow> error option \<times> session \<times> stats" where
  "process_entries lower now t [] st = (None, st)"
| "process_entries lower now t (e # es) st =
     (case process_entry lower now t e st of
        (Some err, st') \<Rightarrow> (Some err, st')
      | (None, st') \<Rightarrow> process_entries lower now t es st')"

fun process_topics ::
  "lowering \<Rightarrow> network \<Rightarrow> int \<Rightarrow> topic list \<Rightarrow> session \<times> stats \<Rightarrow> error option \<times> session \<times> stats" where
  "process_topics lower net now [] st = (None, st)"
| "process_topics lower net now (t # ts) st =
     (case fst (fetch_feed lower net now (topic_source t) (topic_feed_url t)) of
        Inl err \<Rightarrow> (Some err, st)
      | Inr entries \<Rightarrow>
          (case process_entries lower now t entries st of
             (Some err, st') \<Rightarrow> (Some err, st')
           | (None, st') \<Rightarrow> process_topics lower net now ts st'))"

text \<open>
  One run of the task on the persisted state \<open>d\<close>: the exception or the counters, and
  the persisted state after the run. A run has one time \<open>now\<close>, for the dates it gives
  to entries without one and to the rows it inserts.
\<close>

definition fetch_all_topics :: "lowering \<Rightarrow> network \<Rightarrow> int \<Rightarrow> db \<Rightarrow> (error + stats) \<times> db" where
  "fetch_all_topics lower net now d =
     (let s = SessionLocal d;
          stats0 = \<lparr>topics_checked = 0, posts_created = 0, duplicates = 0\<rparr>;
          active = get_active_topics s;
          stats1 = stats0\<lparr>topics_checked := length active\<rparr>
      in case process_topics lower net now active (s, stats1) of
           (Some err, s', stats') \<Rightarrow> (Inl err, committed (rollback s'))
         | (None, s', stats') \<Rightarrow> (Inr stats', committed (commit s')))"


section \<open>schemas.py, crud.py and main.py: topics\<close>

text \<open>A validated \<^verbatim>\<open>TopicCreate\<close> payload: every field has a value (given or default).\<close>

record topic_create =
  create_name :: string
  create_source :: string
  create_feed_url :: string
  create_keywords :: "string list"
  create_is_active :: bool

text \<open>
  A validated \<^verbatim>\<open>TopicUpdate\<close> payload: each field is unset (absent from the request) or
  set to a value of its \<^verbatim>\<open>Optional\<close> type, which may be \<^verbatim>\<open>None\<close>.
  \<^verbatim>\<open>model_dump(exclude_unset=True)\<close> holds the set fields.
\<close>

datatype 'a setting = Unset | Set 'a

record topic_update =
  update_name :: "string option setting"
  update_source :: "string option setting"
  update_feed_url :: "string option setting"
  update_keywords :: "string list option setting"
  update_is_active :: "bool option setting"

text \<open>The attributes of a \<^verbatim>\<open>models.Topic\<close> instance that a payload can set: Python values.\<close>

record topic_obj =
  attr_name :: "string option"
  attr_source :: "string option"
  attr_feed_url :: "string option"
  attr_keywords :: "string list option"
  attr_is_active :: "bool option"

definition attrs_of :: "topic \<Rightarrow> topic_obj" where
  "attrs_of t =
     \<lparr>attr_name = Some (topic_name t),
      attr_source = Some (topic_source t),
      attr_feed_url = Some (topic_feed_url t),
      attr_keywords = topic_keywords t,
      attr_is_active = Some (topic_is_active t)\<rparr>"

text \<open>\<^verbatim>\<open>for field, value in topic_in.model_dump(exclude_unset=True).items(): setattr(...)\<close>\<close>

definition assign :: "'a setting \<Rightarrow> 'a \<Rightarrow> 'a" where
  "assign u old = (case u of Unset \<Rightarrow> old | Set v \<Rightarrow> v)"

definition setattrs :: "topic_update \<Rightarrow> topic_obj \<Rightarrow> topic_obj" where
  "setattrs topic_in obj =
     \<lparr>attr_name = assign (update_name topic_in) (attr_name obj),
      attr_source = assign (update_source topic_in) (attr_source obj),
      attr_feed_url = assign (update_feed_url topic_in) (attr_feed_url obj),
      attr_keywords = assign (update_keywords topic_in) (attr_keywords obj),
      attr_is_active = assign (update_is_active topic_in) (attr_is_active obj)\<rparr>"

text \<open>
  The INSERT of a topic: the name is unique; \<^verbatim>\<open>created_at\<close> and \<^verbatim>\<open>updated_at\<close> take the
  server's time.
\<close>

definition insert_topic :: "int \<Rightarrow> topic_create \<Rightarrow> db \<Rightarrow> error + (db \<times> topic)" where
  "insert_topic now topic_in d =
     (if create_name topic_in \<in> set (map topic_name (topics d))
      then Inl (IntegrityError ''UNIQUE constraint failed: topics.name'')
      else
        (let row = \<lparr>topic_id = next_id (map topic_id (topics d)),
                    topic_name = create_name topic_in,
                    topic_source = create_source topic_in,
                    topic_feed_url = create_feed_url topic_in,
                    topic_keywords = Some (create_keywords topic_in),
                    topic_is_active = create_is_active topic_in,
                    topic_created_at = now,
                    topic_updated_at = now\<rparr>
         in Inr (d\<lparr>topics := topics d @ [row]\<rparr>, row)))"

text \<open>
  The UPDATE of the row of \<open>t\<close> to the attributes \<open>obj\<close>. No statement is emitted when no
  attribute has a new value. Otherwise \<^verbatim>\<open>name\<close>, \<^verbatim>\<open>source\<close>, \<^verbatim>\<open>feed_url\<close> and
  \<^verbatim>\<open>is_active\<close> must not be \<^verbatim>\<open>None\<close>, no other row may have the name, and
  \<^verbatim>\<open>updated_at\<close> takes the server's time (\<^verbatim>\<open>onupdate=func.now()\<close>).
\<close>

definition update_row :: "int \<Rightarrow> topic \<Rightarrow> topic_obj \<Rightarrow> db \<Rightarrow> error + (db \<times> topic)" where
  "update_row now t obj d =
     (if obj = attrs_of t then Inr (d, t)
      else
        (case (attr_name obj, attr_source obj, attr_feed_url obj, attr_is_active obj) of
           (Some name, Some source, Some feed_url, Some is_active) \<Rightarrow>
             if name \<in> set (map topic_name (filter (\<lambda>r. topic_id r \<noteq> topic_id t) (topics d)))
             then Inl (IntegrityError ''UNIQUE constraint failed: topics.name'')
             else
               (let row = t\<lparr>topic_name := name,
                            topic_source := source,
                            topic_feed_url := feed_url,
                            topic_keywords := attr_keywords obj,
                            topic_is_active := is_active,
                            topic_updated_at := now\<rparr>
                in Inr (d\<lparr>topics := map (\<lambda>r. if topic_id r = topic_id t then row else r)
                                       (topics d)\<rparr>, row))
         | _ \<Rightarrow> Inl (IntegrityError ''NOT NULL constraint failed'')))"

definition crud_create_topic ::
  "int \<Rightarrow> topic_create \<Rightarrow> session \<Rightarrow> (error + topic) \<times> session" where
  "crud_create_topic now topic_in s =
     (case insert_topic now topic_in (working s) of
        Inl err \<Rightarrow> (Inl err, s)
      | Inr (d', row) \<Rightarrow> (Inr row, commit (s\<lparr>working := d'\<rparr>)))"

definition crud_update_topic ::
  "int \<Rightarrow> topic \<Rightarrow> topic_update \<Rightarrow> session \<Rightarrow> (error + topic) \<times> session" where
  "crud_update_topic now t topic_in s =
     (let obj = setattrs topic_in (attrs_of t) in
      case update_row now t obj (working s) of
        Inl err \<Rightarrow> (Inl err, s)
      | Inr (d', row) \<Rightarrow> (Inr row, commit (s\<lparr>working := d'\<rparr>)))"

text \<open>
  What a request handler gives: a response with its status code, an
  \<^verbatim>\<open>HTTPException\<close> with its status code and detail, or an exception it does not
  handle (a server error).
\<close>

datatype 'a http = Response nat 'a | HTTPException nat string | Unhandled error

text \<open>\<^verbatim>\<open>TopicRead.model_validate\<close>: \<^verbatim>\<open>keywords\<close> must be a list.\<close>

definition model_validate :: "topic \<Rightarrow> error + topic" where
  "model_validate t =
     (case topic_keywords t of
        None \<Rightarrow> Inl (OtherError ''ValidationError'')
      | Some ks \<Rightarrow> Inr t)"

text \<open>\<^verbatim>\<open>POST /api/v1/topics\<close> on the persisted state \<open>d\<close>.\<close>

definition create_topic :: "int \<Rightarrow> topic_create \<Rightarrow> db \<Rightarrow> topic http \<times> db" where
  "create_topic now topic_in d =
     (let s = SessionLocal d in
      case crud_create_topic now topic_in s of
        (Inl (IntegrityError msg), s') \<Rightarrow>
          (HTTPException 400 ''Topic with the same name already exists.'',
           committed (rollback s'))
      | (Inl err, s') \<Rightarrow> (Unhandled err, committed s')
      | (Inr row, s') \<Rightarrow>
          (case model_validate row of
             Inl err \<Rightarrow> (Unhandled err, committed s')
           | Inr body \<Rightarrow> (Response 201 body, committed s')))"


section \<open>Notions used to state and prove the properties\<close>

text \<open>An entry whose title, link and uid are strings, as the columns of a post must be.\<close>

definition not_null :: "entry \<Rightarrow> bool" where
  "not_null e = (entry_title e \<noteq> None \<and> entry_link e \<noteq> None \<and> entry_uid e \<noteq> None)"

text \<open>The uids a session sees among the posts, as Python values.\<close>

definition uids :: "session \<Rightarrow> string option set" where
  "uids s = Some ` set (map post_uid (posts (working s)))"

text \<open>The entries a run gets for a topic (none when the fetch fails).\<close>

definition topic_entries :: "lowering \<Rightarrow> network \<Rightarrow> int \<Rightarrow> topic \<Rightarrow> entry list" where
  "topic_entries lower net now t =
     (case fst (fetch_feed lower net now (topic_source t) (topic_feed_url t)) of
        Inl err \<Rightarrow> []
      | Inr entries \<Rightarrow> entries)"

text \<open>The entries of a list of topics, each with its topic, in the order a run meets them.\<close>

definition feed_pairs :: "lowering \<Rightarrow> network \<Rightarrow> int \<Rightarrow> topic list \<Rightarrow> (topic \<times> entry) list" where
  "feed_pairs lower net now ts = concat (map (\<lambda>t. map (Pair t) (topic_entries lower net now t)) ts)"

text \<open>The entries one run on the persisted state \<open>d\<close> meets.\<close>

definition run_pairs :: "lowering \<Rightarrow> network \<Rightarrow> int \<Rightarrow> db \<Rightarrow> (topic \<times> entry) list" where
  "run_pairs lower net now d = feed_pairs lower net now (get_active_topics (SessionLocal d))"

text \<open>The two loops as one, over entries paired with their topics.\<close>

fun process_pairs ::
  "lowering \<Rightarrow> int \<Rightarrow> (topic \<times> entry) list \<Rightarrow> session \<times> stats \<Rightarrow> error option \<times> session \<times> stats" where
  "process_pairs lower now [] st = (None, st)"
| "process_pairs lower now (x # xs) st =
     (case process_entry lower now (fst x) (snd x) st of
        (Some err, st') \<Rightarrow> (Some err, st')
      | (None, st') \<Rightarrow> process_pairs lower now xs st')"

text \<open>What the duplicate check and the keyword filter read of an entry and its topic.\<close>

definition pair_key :: "lowering \<Rightarrow> topic \<times> entry \<Rightarrow> string option \<times> bool" where
  "pair_key lower x = (entry_uid (snd x), should_keep_entry lower (snd x) (topic_keywords (fst x)))"


subsection \<open>Example data\<close>

definition raw_python :: raw_entry where
  "raw_python =
     \<lparr>raw_link = Present ''https://example.com/python'',
      raw_id = Present ''A'',
      raw_guid = Missing,
      raw_title = Present ''Python release'',
      raw_summary = Present ''Python and FastAPI updates'',
      raw_content = Missing,
      raw_published_parsed = Present 0,
      raw_updated_parsed = Missing,
      raw_created_parsed = Missing\<rparr>"

definition raw_other :: raw_entry where
  "raw_other =
     \<lparr>raw_link = Present ''https://example.com/other'',
      raw_id = Present ''B'',
      raw_guid = Missing,
      raw_title = Present ''Unrelated'',
      raw_summary = Present ''Random news'',
      raw_content = Missing,
      raw_published_parsed = Missing,
      raw_updated_parsed = Missing,
      raw_created_parsed = Missing\<rparr>"

definition example_topic :: topic where
  "example_topic =
     \<lparr>topic_id = 1,
      topic_name = ''V2EX Python'',
      topic_source = ''v2ex'',
      topic_feed_url = ''https://www.v2ex.com/rss'',
      topic_keywords = Some [''python''],
      topic_is_active = True,
      topic_created_at = 0,
      topic_updated_at = 0\<rparr>"

definition broken_topic :: topic where
  "broken_topic =
     \<lparr>topic_id = 2,
      topic_name = ''NodeSeek'',
      topic_source = ''nodeseek'',
      topic_feed_url = ''https://down.example/rss'',
      topic_keywords = Some [],
      topic_is_active = True,
      topic_created_at = 0,
      topic_updated_at = 0\<rparr>"

text \<open>A network where one feed has the two entries and every other URL fails.\<close>

definition example_net :: network where
  "example_net url =
     (if url = ''https://www.v2ex.com/rss'' then Inr [raw_python, raw_other]
      else Inl (HTTPError ''Network error''))"

text \<open>A network whose feed lists the same entry twice.\<close>

definition repeating_net :: network where
  "repeating_net url = Inr [raw_python, raw_python]"

definition example_db :: db where
  "example_db = \<lparr>topics = [example_topic], posts = [], push_logs = []\<rparr>"


text \<open>The example topic together with a topic whose feed is down.\<close>

definition example_db2 :: db where
  "example_db2 = \<lparr>topics = [example_topic, broken_topic], posts = [], push_logs = []\<rparr>"

text \<open>The example state once the first entry is a post.\<close>

definition ingested_db :: db where
  "ingested_db =
     \<lparr>topics = [example_topic],
      posts = [\<lparr>post_id = 1,
                post_topic_id = 1,
                post_title = ''Python release'',
                post_content = Some ''Python and FastAPI updates'',
                post_link = ''https://example.com/python'',
                post_uid = ''A'',
                post_published_at = 0,
                post_is_pushed = False,
                post_created_at = 0\<rparr>],
      push_logs = [\<lparr>log_id = 1,
                    log_post_id = 1,
                    log_status = ''pending'',
                    log_message = None,
                    log_created_at = 0\<rparr>]\<rparr>"

text \<open>An entry with the uid of the first one and the text of the second.\<close>

definition raw_renamed :: raw_entry where
  "raw_renamed = raw_other\<lparr>raw_id := Present ''A''\<rparr>"


text \<open>A request to create a topic with the name of the example topic.\<close>

definition same_name_request :: topic_create where
  "same_name_request =
     \<lparr>create_name = ''V2EX Python'',
      create_source = ''linux.do'',
      create_feed_url = ''https://linux.do/latest.rss'',
      create_keywords = [],
      create_is_active = True\<rparr>"

text \<open>An update payload that sets \<^verbatim>\<open>is_active\<close> to false and nothing else.\<close>

definition deactivate :: topic_update where
  "deactivate =
     \<lparr>update_name = Unset,
      update_source = Unset,
      update_feed_url = Unset,
      update_keywords = Unset,
      update_is_active = Set (Some False)\<rparr>"


text \<open>A second topic on the feed of the example topic, with no keywords.\<close>

definition all_topic :: topic where
  "all_topic =
     \<lparr>topic_id = 2,
      topic_name = ''V2EX All'',
      topic_source = ''v2ex'',
      topic_feed_url = ''https://www.v2ex.com/rss'',
      topic_keywords = Some [],
      topic_is_active = True,
      topic_created_at = 0,
      topic_updated_at = 0\<rparr>"

definition shared_feed_db :: db where
  "shared_feed_db = \<lparr>topics = [example_topic, all_topic], posts = [], push_logs = []\<rparr>"


text \<open>
  A lowering for the examples. It lowers the ASCII letters, the capital letters of
  Latin-1 (\<^verbatim>\<open>U+00C0\<close> to \<^verbatim>\<open>U+00DE\<close> but \<^verbatim>\<open>U+00D7\<close>: in UTF-8 the byte \<^verbatim>\<open>C3\<close> and
  a byte from \<^verbatim>\<open>80\<close> to \<^verbatim>\<open>9E\<close> but \<^verbatim>\<open>97\<close>, which gets 32 added) and KELVIN SIGN
  (\<^verbatim>\<open>U+212A\<close>, the bytes \<^verbatim>\<open>E2 84 AA\<close>, which becomes \<^verbatim>\<open>k\<close>), and keeps every other
  byte. It is \<^verbatim>\<open>str.lower()\<close> on the strings of the examples, which have no other
  capital letter.
\<close>

definition kelvin_sign :: string where
  "kelvin_sign = [CHR 0xE2, CHR 0x84, CHR 0xAA]"

definition e_acute_capital :: string where
  "e_acute_capital = [CHR 0xC3, CHR 0x89]"

definition e_acute_small :: string where
  "e_acute_small = [CHR 0xC3, CHR 0xA9]"

definition latin1_lower_byte :: "char \<Rightarrow> char" where
  "latin1_lower_byte b =
     (if 128 \<le> (of_char b :: nat) \<and> (of_char b :: nat) \<le> 158 \<and> (of_char b :: nat) \<noteq> 151
      then char_of ((of_char b :: nat) + 32)
      else b)"

fun sample_lower :: lowering where
  "sample_lower [] = []"
| "sample_lower [a] = [ascii_lower_char a]"
| "sample_lower [a, b] =
     (if a = CHR 0xC3 then [a, latin1_lower_byte b]
      else [ascii_lower_char a, ascii_lower_char b])"
| "sample_lower (a # b # c # cs) =
     (if [a, b, c] = kelvin_sign then CHR ''k'' # sample_lower cs
      else if a = CHR 0xC3 then a # latin1_lower_byte b # sample_lower (c # cs)
      else ascii_lower_char a # sample_lower (b # c # cs))"

declare sample_lower.simps [simp del]


section \<open>Properties of the fetchers\<close>

lemma py_in_sublist: "py_in k s = sublist k s"
  by (induction s) (auto simp: sublist_Cons_right)

lemma match_keywords_sublist:
  "match_keywords lower text keywords =
     (if keywords = [] then True
      else if text = None \<or> text = Some [] then False
      else (\<exists>k \<in> set keywords.
              sublist (lower k) (lower (case text of Some t \<Rightarrow> t | None \<Rightarrow> []))))"
  by (cases "text") (auto simp: match_keywords_def py_in_sublist list_ex_iff)

lemma ascii_ascii_lower_char: "(of_char (ascii_lower_char c) :: nat) < 128 = ((of_char c :: nat) < 128)"
  by (cases c) (auto simp: ascii_lower_char_def)

lemma sample_lower_ascii: "ascii s \<Longrightarrow> sample_lower s = ascii_lower s"
proof (induction s rule: sample_lower.induct)
  case 1
  then show ?case by (simp add: ascii_lower_def sample_lower.simps)
next
  case (2 a)
  then show ?case by (simp add: ascii_lower_def sample_lower.simps)
next
  case (3 a b)
  then show ?case by (auto simp: ascii_lower_def ascii_def sample_lower.simps)
next
  case (4 a b c cs)
  from "4.prems" have a: "(of_char a :: nat) < 128" and rest: "ascii (b # c # cs)"
    by (simp_all add: ascii_def)
  from a have "a \<noteq> CHR 0xE2" and "a \<noteq> CHR 0xC3" by auto
  with "4.IH"(3) rest show ?case
    by (simp add: kelvin_sign_def ascii_lower_def sample_lower.simps)
qed

lemma lowers_ascii_sample: "lowers_ascii sample_lower"
  by (simp add: lowers_ascii_def sample_lower_ascii)

text \<open>
  C2: \<open>match_keywords\<close> is true for every text, \<^verbatim>\<open>None\<close> included, when there is no
  keyword; it is false for a \<^verbatim>\<open>None\<close> or empty text when there is a keyword; otherwise
  it is true exactly when some keyword, lowered by \<^verbatim>\<open>str.lower()\<close>, is a contiguous part
  of the text, lowered by \<^verbatim>\<open>str.lower()\<close>. So texts with the same lowering and keywords
  with the same lowerings are matched alike, and on ASCII strings the match is containment
  up to the case of the letters \<^verbatim>\<open>A\<close>..\<^verbatim>\<open>Z\<close>.
\<close>

theorem match_keywords_spec:
  "match_keywords lower text keywords =
     (if keywords = [] then True
      else if text = None \<or> text = Some [] then False
      else (\<exists>k \<in> set keywords.
              sublist (lower k) (lower (case text of Some t \<Rightarrow> t | None \<Rightarrow> []))))
   \<and> (lower t = lower t' \<and> map lower keywords = map lower keywords' \<and> t \<noteq> [] \<and> t' \<noteq> [] \<longrightarrow>
        match_keywords lower (Some t) keywords = match_keywords lower (Some t') keywords')
   \<and> (lowers_ascii lower \<and> ascii t \<and> list_all ascii keywords \<and> keywords \<noteq> [] \<and> t \<noteq> [] \<longrightarrow>
        match_keywords lower (Some t) keywords
          = (\<exists>k \<in> set keywords. sublist (ascii_lower k) (ascii_lower t)))"
proof (intro conjI impI)
  show "match_keywords lower text keywords =
     (if keywords = [] then True
      else if text = None \<or> text = Some [] then False
      else (\<exists>k \<in> set keywords.
              sublist (lower k) (lower (case text of Some t \<Rightarrow> t | None \<Rightarrow> []))))"
    by (rule match_keywords_sublist)
next
  assume h: "lower t = lower t' \<and> map lower keywords = map lower keywords' \<and> t \<noteq> [] \<and> t' \<noteq> []"
  then have e: "(keywords = []) = (keywords' = [])"
    by (metis map_is_Nil_conv)
  from h have "lower ` set keywords = lower ` set keywords'"
    by (metis set_map)
  then have "(\<exists>k \<in> set keywords. sublist (lower k) (lower t))
               = (\<exists>k \<in> set keywords'. sublist (lower k) (lower t))"
    by (metis (no_types, lifting) image_iff)
  with h e show "match_keywords lower (Some t) keywords = match_keywords lower (Some t') keywords'"
    by (simp add: match_keywords_sublist)
next
  assume h: "lowers_ascii lower \<and> ascii t \<and> list_all ascii keywords \<and> keywords \<noteq> [] \<and> t \<noteq> []"
  then have "lower t = ascii_lower t" and "\<forall>k \<in> set keywords. lower k = ascii_lower k"
    by (auto simp: lowers_ascii_def list_all_iff)
  with h show "match_keywords lower (Some t) keywords
                 = (\<exists>k \<in> set keywords. sublist (ascii_lower k) (ascii_lower t))"
    by (simp add: match_keywords_sublist)
qed

theorem match_keywords_spec_witness:
  "lowers_ascii sample_lower
   \<and> ascii ''UPPERCASE TEXT'' \<and> list_all ascii [''uppercase'']
   \<and> match_keywords sample_lower (Some ''UPPERCASE TEXT'') [''uppercase'']
   \<and> sample_lower ''Python FastAPI release'' = sample_lower ''PYTHON FASTAPI RELEASE''
   \<and> map sample_lower [''fastapi''] = map sample_lower [''FastAPI'']
   \<and> match_keywords sample_lower (Some ''Python FastAPI release'') [''fastapi'']
   \<and> match_keywords sample_lower (Some ''PYTHON FASTAPI RELEASE'') [''FastAPI'']
   \<and> match_keywords sample_lower (Some e_acute_capital) [e_acute_small]
   \<and> \<not> match_keywords sample_lower (Some ''Rust updates'') [''python'']
   \<and> match_keywords sample_lower None []
   \<and> \<not> match_keywords sample_lower None [''python'']"
proof -
  note la = lowers_ascii_sample
  have a1: "ascii ''UPPERCASE TEXT''" and a2: "list_all ascii [''uppercase'']"
    by code_simp+
  have s1: "\<exists>k \<in> set [''uppercase'']. sublist (ascii_lower k) (ascii_lower ''UPPERCASE TEXT'')"
    by code_simp
  from match_keywords_spec [of sample_lower None "[''uppercase'']" "''UPPERCASE TEXT''"
      "''UPPERCASE TEXT''" "[''uppercase'']"] la a1 a2 s1
  have m1: "match_keywords sample_lower (Some ''UPPERCASE TEXT'') [''uppercase'']"
    by simp
  have l1: "sample_lower ''Python FastAPI release'' = sample_lower ''PYTHON FASTAPI RELEASE''"
    and l2: "map sample_lower [''fastapi''] = map sample_lower [''FastAPI'']"
    by code_simp+
  have m2: "match_keywords sample_lower (Some ''Python FastAPI release'') [''fastapi'']"
    by code_simp
  from match_keywords_spec [of sample_lower None "[''fastapi'']" "''Python FastAPI release''"
      "''PYTHON FASTAPI RELEASE''" "[''FastAPI'']"] l1 l2 m2
  have m3: "match_keywords sample_lower (Some ''PYTHON FASTAPI RELEASE'') [''FastAPI'']"
    by simp
  have s4: "\<exists>k \<in> set [e_acute_small]. sublist (sample_lower k) (sample_lower e_acute_capital)"
    and n4: "e_acute_capital \<noteq> []"
    by code_simp+
  from match_keywords_spec [of sample_lower "Some e_acute_capital" "[e_acute_small]"] s4 n4
  have m4: "match_keywords sample_lower (Some e_acute_capital) [e_acute_small]"
    by simp
  have s5: "\<not> (\<exists>k \<in> set [''python'']. sublist (sample_lower k) (sample_lower ''Rust updates''))"
    by code_simp
  from match_keywords_spec [of sample_lower "Some ''Rust updates''" "[''python'']"] s5
  have m5: "\<not> match_keywords sample_lower (Some ''Rust updates'') [''python'']"
    by simp
  from match_keywords_spec [of sample_lower None "[]"]
  have m6: "match_keywords sample_lower None []" by simp
  from match_keywords_spec [of sample_lower None "[''python'']"]
  have m7: "\<not> match_keywords sample_lower None [''python'']" by simp
  from la a1 a2 m1 l1 l2 m2 m3 m4 m5 m6 m7 show ?thesis by blast
qed

text \<open>
  C5: the uid of a normalized entry is the raw \<^verbatim>\<open>id\<close> when it has one (a non-empty
  string), else the \<^verbatim>\<open>guid\<close>, else the \<^verbatim>\<open>link\<close>, else the source, a colon and the
  title; in every case it is a non-empty string.
\<close>

theorem entry_uid_priority:
  "entry_uid (entry_to_dict now e source) =
     (if truthy (dict_get (raw_id e)) then dict_get (raw_id e)
      else if truthy (dict_get (raw_guid e)) then dict_get (raw_guid e)
      else if truthy (dict_get (raw_link e)) then dict_get (raw_link e)
      else Some (source @ '':'' @ py_format (dict_get_default (raw_title e) '''')))
   \<and> (\<exists>u. entry_uid (entry_to_dict now e source) = Some u \<and> u \<noteq> [])"
  by (cases "dict_get (raw_id e)"; cases "dict_get (raw_guid e)"; cases "dict_get (raw_link e)")
     (auto simp: entry_to_dict_def py_or_def Let_def)

text \<open>
  C6: \<open>fetch_feed\<close> looks the source, lowered by \<^verbatim>\<open>str.lower()\<close>, up among \<^verbatim>\<open>v2ex\<close>,
  \<^verbatim>\<open>nodeseek\<close> and \<^verbatim>\<open>linux.do\<close>. When it is one of them, the call is the generic
  fetch for that source and issues exactly one request, for the feed URL; otherwise it
  raises the unsupported-source \<^verbatim>\<open>ValueError\<close> and issues no request. For a source of
  ASCII characters the lookup is that of the source with its letters \<^verbatim>\<open>A\<close>..\<^verbatim>\<open>Z\<close> in
  lower case.
\<close>

theorem fetch_feed_dispatch:
  "(if lower source \<in> {''v2ex'', ''nodeseek'', ''linux.do''}
    then fetch_feed lower net now source feed_url
           = fetch_generic_feed net now feed_url (lower source)
       \<and> snd (fetch_feed lower net now source feed_url) = [feed_url]
    else fetch_feed lower net now source feed_url
           = (Inl (ValueError (''Unsupported source: '' @ source)), []))
   \<and> (lowers_ascii lower \<and> ascii source \<longrightarrow>
        (lower source \<in> {''v2ex'', ''nodeseek'', ''linux.do''})
          = (ascii_lower source \<in> {''v2ex'', ''nodeseek'', ''linux.do''}))"
proof (intro conjI impI)
  show "if lower source \<in> {''v2ex'', ''nodeseek'', ''linux.do''}
    then fetch_feed lower net now source feed_url
           = fetch_generic_feed net now feed_url (lower source)
       \<and> snd (fetch_feed lower net now source feed_url) = [feed_url]
    else fetch_feed lower net now source feed_url
           = (Inl (ValueError (''Unsupported source: '' @ source)), [])"
    by (auto simp: fetch_feed_def fetchers_def fetch_v2ex_feed_def fetch_nodeseek_feed_def
          fetch_linux_do_feed_def fetch_generic_feed_def fetch_and_parse_def split: sum.splits)
next
  assume "lowers_ascii lower \<and> ascii source"
  then have "lower source = ascii_lower source" by (simp add: lowers_ascii_def)
  then show "(lower source \<in> {''v2ex'', ''nodeseek'', ''linux.do''})
               = (ascii_lower source \<in> {''v2ex'', ''nodeseek'', ''linux.do''})"
    by (simp only:)
qed

theorem fetch_feed_dispatch_witness:
  "lowers_ascii sample_lower \<and> ascii ''LINUX.DO''
   \<and> ascii_lower ''LINUX.DO'' = ''linux.do''
   \<and> fetch_feed sample_lower (\<lambda>url. Inr []) 0 ''LINUX.DO'' ''https://linux.do/rss''
     = (Inr [], [''https://linux.do/rss''])
   \<and> fetch_feed sample_lower (\<lambda>url. Inr []) 0 (''nodesee'' @ kelvin_sign)
        ''https://www.nodeseek.com/rss''
     = (Inr [], [''https://www.nodeseek.com/rss''])
   \<and> fetch_feed sample_lower (\<lambda>url. Inr []) 0 ''unknown'' ''https://example.com/rss''
     = (Inl (ValueError ''Unsupported source: unknown''), [])"
proof -
  note la = lowers_ascii_sample
  have a: "ascii ''LINUX.DO''" and l: "ascii_lower ''LINUX.DO'' = ''linux.do''"
    by code_simp+
  from fetch_feed_dispatch [of sample_lower "''LINUX.DO''"] la a l
  have in1: "sample_lower ''LINUX.DO'' \<in> {''v2ex'', ''nodeseek'', ''linux.do''}"
    by simp
  have g1: "fetch_generic_feed (\<lambda>url. Inr []) 0 ''https://linux.do/rss''
              (sample_lower ''LINUX.DO'') = (Inr [], [''https://linux.do/rss''])"
    by (simp add: fetch_generic_feed_def fetch_and_parse_def)
  from fetch_feed_dispatch [of sample_lower "''LINUX.DO''" "\<lambda>url. Inr []" 0
      "''https://linux.do/rss''"] in1 g1
  have r1: "fetch_feed sample_lower (\<lambda>url. Inr []) 0 ''LINUX.DO'' ''https://linux.do/rss''
              = (Inr [], [''https://linux.do/rss''])"
    by simp
  have in2: "sample_lower (''nodesee'' @ kelvin_sign) \<in> {''v2ex'', ''nodeseek'', ''linux.do''}"
    by code_simp
  have g2: "fetch_generic_feed (\<lambda>url. Inr []) 0 ''https://www.nodeseek.com/rss''
              (sample_lower (''nodesee'' @ kelvin_sign))
              = (Inr [], [''https://www.nodeseek.com/rss''])"
    by (simp add: fetch_generic_feed_def fetch_and_parse_def)
  from fetch_feed_dispatch [of sample_lower "''nodesee'' @ kelvin_sign" "\<lambda>url. Inr []" 0
      "''https://www.nodeseek.com/rss''"] in2 g2
  have r2: "fetch_feed sample_lower (\<lambda>url. Inr []) 0 (''nodesee'' @ kelvin_sign)
              ''https://www.nodeseek.com/rss'' = (Inr [], [''https://www.nodeseek.com/rss''])"
    by simp
  have in3: "sample_lower ''unknown'' \<notin> {''v2ex'', ''nodeseek'', ''linux.do''}"
    by code_simp
  from fetch_feed_dispatch [of sample_lower "''unknown''" "\<lambda>url. Inr []" 0
      "''https://example.com/rss''"] in3
  have r3: "fetch_feed sample_lower (\<lambda>url. Inr []) 0 ''unknown'' ''https://example.com/rss''
              = (Inl (ValueError ''Unsupported source: unknown''), [])"
    by simp
  from la a l r1 r2 r3 show ?thesis by blast
qed


section \<open>Properties of the task\<close>

text \<open>
  C9: \<open>should_keep_entry\<close> treats \<^verbatim>\<open>None\<close> keywords as the empty list: both keep every
  entry.
\<close>

theorem should_keep_entry_null_keywords:
  "should_keep_entry lower e None = should_keep_entry lower e (Some []) \<and> should_keep_entry lower e None = True"
  by (simp add: should_keep_entry_def match_keywords_def)

subsection \<open>Normalized entries\<close>

lemma entry_to_dict_title:
  "entry_title (entry_to_dict now raw source)
     = Some (case dict_get (raw_title raw) of None \<Rightarrow> [] | Some s \<Rightarrow> s)"
  by (cases "dict_get (raw_title raw)") (auto simp: entry_to_dict_def py_or_def Let_def)

lemma entry_to_dict_link:
  "entry_link (entry_to_dict now raw source)
     = Some (case dict_get (raw_link raw) of
               Some (c # cs) \<Rightarrow> c # cs
             | _ \<Rightarrow> (case dict_get (raw_id raw) of None \<Rightarrow> [] | Some s \<Rightarrow> s))"
  by (cases "dict_get (raw_link raw)"; cases "dict_get (raw_id raw)")
     (auto simp: entry_to_dict_def py_or_def Let_def split: list.splits)

lemma entry_to_dict_uid:
  "\<exists>u. entry_uid (entry_to_dict now raw source) = Some u \<and> u \<noteq> []"
  by (cases "dict_get (raw_id raw)"; cases "dict_get (raw_guid raw)"; cases "dict_get (raw_link raw)")
     (auto simp: entry_to_dict_def py_or_def Let_def)

lemma not_null_entry_to_dict: "not_null (entry_to_dict now raw source)"
  using entry_to_dict_uid [of now raw source]
  by (auto simp: not_null_def entry_to_dict_title entry_to_dict_link)

lemma fetch_feed_entries:
  assumes "fst (fetch_feed lower net now source feed_url) = Inr entries"
  shows "\<exists>raws. net feed_url = Inr raws
           \<and> entries = map (\<lambda>raw. entry_to_dict now raw (lower source)) raws"
  using assms
  by (auto simp: fetch_feed_def fetchers_def fetch_v2ex_feed_def fetch_nodeseek_feed_def
        fetch_linux_do_feed_def fetch_generic_feed_def fetch_and_parse_def
        split: sum.splits if_splits)

lemma topic_entries_not_null: "e \<in> set (topic_entries lower net now t) \<Longrightarrow> not_null e"
proof -
  assume e: "e \<in> set (topic_entries lower net now t)"
  show ?thesis
  proof (cases "fst (fetch_feed lower net now (topic_source t) (topic_feed_url t))")
    case (Inl err)
    with e show ?thesis by (simp add: topic_entries_def)
  next
    case (Inr entries)
    from fetch_feed_entries [OF Inr] e Inr show ?thesis
      by (auto simp: topic_entries_def not_null_entry_to_dict)
  qed
qed

subsection \<open>One entry\<close>

lemma uid_exists_uids: "uid_exists s uid = (uid \<in> uids s)"
  by (cases uid) (auto simp: uid_exists_def uids_def)

lemma process_entry_cases:
  "process_entry lower now t e (s, st) = (err, s', st') \<Longrightarrow>
     (uid_exists s (entry_uid e) \<and> err = None \<and> s' = s \<and> st' = st\<lparr>duplicates := duplicates st + 1\<rparr>)
   \<or> (\<not> uid_exists s (entry_uid e) \<and> \<not> should_keep_entry lower e (topic_keywords t)
        \<and> err = None \<and> s' = s \<and> st' = st)
   \<or> (\<not> uid_exists s (entry_uid e) \<and> should_keep_entry lower e (topic_keywords t) \<and> \<not> not_null e
        \<and> err \<noteq> None \<and> s' = s \<and> st' = st)
   \<or> (\<not> uid_exists s (entry_uid e) \<and> should_keep_entry lower e (topic_keywords t) \<and> not_null e
        \<and> err = None \<and> st' = st\<lparr>posts_created := posts_created st + 1\<rparr>
        \<and> committed s' = committed s
        \<and> topics (working s') = topics (working s)
        \<and> (\<exists>p l. posts (working s') = posts (working s) @ [p]
              \<and> Some (post_uid p) = entry_uid e
              \<and> Some (post_title p) = entry_title e
              \<and> Some (post_link p) = entry_link e
              \<and> post_content p = entry_summary e
              \<and> post_topic_id p = topic_id t
              \<and> push_logs (working s') = push_logs (working s) @ [l]
              \<and> log_post_id l = post_id p
              \<and> log_status l = ''pending''))"
  by (auto simp: process_entry_def add_and_flush_post_def add_push_log_def uid_exists_def
        not_null_def Let_def split: if_splits option.splits)

lemma process_entry_duplicate:
  "uid_exists s (entry_uid e) \<Longrightarrow>
     process_entry lower now t e (s, st) = (None, s, st\<lparr>duplicates := duplicates st + 1\<rparr>)"
  by (simp add: process_entry_def)

lemma process_entry_filtered:
  "\<not> uid_exists s (entry_uid e) \<Longrightarrow> \<not> should_keep_entry lower e (topic_keywords t) \<Longrightarrow>
     process_entry lower now t e (s, st) = (None, s, st)"
  by (simp add: process_entry_def)

lemma process_entry_not_null_ok:
  "not_null e \<Longrightarrow> fst (process_entry lower now t e (s, st)) = None"
  using process_entry_cases [of lower now t e s st]
  by (cases "process_entry lower now t e (s, st)") auto

lemma process_entry_frame:
  assumes "process_entry lower now t e (s, st) = (err, s', st')"
  shows "committed s' = committed s \<and> topics (working s') = topics (working s)
         \<and> uids s \<subseteq> uids s' \<and> topics_checked st' = topics_checked st"
  using process_entry_cases [OF assms] by (auto simp: uids_def)
subsection \<open>The loops\<close>

lemma process_entries_pairs:
  "process_entries lower now t es st = process_pairs lower now (map (Pair t) es) st"
  by (induction es arbitrary: st) (auto split: prod.splits option.splits)

lemma process_pairs_append:
  "process_pairs lower now (xs @ ys) st =
     (case process_pairs lower now xs st of
        (Some err, st') \<Rightarrow> (Some err, st')
      | (None, st') \<Rightarrow> process_pairs lower now ys st')"
  by (induction xs arbitrary: st) (auto split: prod.splits option.splits)

lemma process_topics_pairs:
  "\<forall>t \<in> set ts. \<not> isl (fst (fetch_feed lower net now (topic_source t) (topic_feed_url t))) \<Longrightarrow>
     process_topics lower net now ts st = process_pairs lower now (feed_pairs lower net now ts) st"
proof (induction ts arbitrary: st)
  case Nil
  then show ?case by (simp add: feed_pairs_def)
next
  case (Cons t ts)
  then obtain entries where
    f: "fst (fetch_feed lower net now (topic_source t) (topic_feed_url t)) = Inr entries"
    by (cases "fst (fetch_feed lower net now (topic_source t) (topic_feed_url t))") auto
  have rest: "\<And>st'. process_topics lower net now ts st' = process_pairs lower now (feed_pairs lower net now ts) st'"
    using Cons by simp
  have "feed_pairs lower net now (t # ts) = map (Pair t) entries @ feed_pairs lower net now ts"
    using f by (simp add: feed_pairs_def topic_entries_def)
  then show ?case
    using f rest
    by (simp add: process_pairs_append process_entries_pairs split: prod.splits option.splits)
qed

lemma process_pairs_frame:
  "process_pairs lower now xs (s, st) = (err, s', st') \<Longrightarrow>
     committed s' = committed s \<and> topics (working s') = topics (working s)
     \<and> uids s \<subseteq> uids s' \<and> topics_checked st' = topics_checked st"
proof (induction xs arbitrary: s st)
  case Nil
  then show ?case by simp
next
  case (Cons x xs)
  obtain e1 s1 st1 where p: "process_entry lower now (fst x) (snd x) (s, st) = (e1, s1, st1)"
    by (cases "process_entry lower now (fst x) (snd x) (s, st)") auto
  note fr = process_entry_frame [OF p]
  show ?case
  proof (cases e1)
    case None
    with Cons.prems p have "process_pairs lower now xs (s1, st1) = (err, s', st')" by simp
    from Cons.IH [OF this] fr show ?thesis by auto
  next
    case (Some a)
    with Cons.prems p fr show ?thesis by auto
  qed
qed

lemma process_topics_frame:
  "process_topics lower net now ts (s, st) = (err, s', st') \<Longrightarrow>
     committed s' = committed s \<and> topics (working s') = topics (working s)
     \<and> topics_checked st' = topics_checked st"
proof (induction ts arbitrary: s st)
  case Nil
  then show ?case by simp
next
  case (Cons t ts)
  show ?case
  proof (cases "fst (fetch_feed lower net now (topic_source t) (topic_feed_url t))")
    case (Inl a)
    with Cons.prems show ?thesis by simp
  next
    case (Inr entries)
    obtain e1 s1 st1 where p: "process_pairs lower now (map (Pair t) entries) (s, st) = (e1, s1, st1)"
      by (cases "process_pairs lower now (map (Pair t) entries) (s, st)") auto
    note fr = process_pairs_frame [OF p]
    show ?thesis
    proof (cases e1)
      case None
      with Cons.prems Inr p have "process_topics lower net now ts (s1, st1) = (err, s', st')"
        by (simp add: process_entries_pairs)
      from Cons.IH [OF this] fr show ?thesis by auto
    next
      case (Some a)
      with Cons.prems Inr p fr show ?thesis by (auto simp: process_entries_pairs)
    qed
  qed
qed

lemma process_pairs_not_null_ok:
  "\<forall>x \<in> set xs. not_null (snd x) \<Longrightarrow> fst (process_pairs lower now xs st) = None"
proof (induction xs arbitrary: st)
  case Nil
  then show ?case by simp
next
  case (Cons x xs)
  obtain s st0 where st: "st = (s, st0)" by (cases st)
  have "fst (process_entry lower now (fst x) (snd x) (s, st0)) = None"
    using Cons.prems by (simp add: process_entry_not_null_ok)
  then obtain st1 where "process_entry lower now (fst x) (snd x) (s, st0) = (None, st1)"
    by (cases "process_entry lower now (fst x) (snd x) (s, st0)") auto
  then show ?case using Cons st by simp
qed

lemma process_topics_error:
  "process_topics lower net now ts st = (Some err, st') \<Longrightarrow>
     \<exists>t \<in> set ts. fst (fetch_feed lower net now (topic_source t) (topic_feed_url t)) = Inl err"
proof (induction ts arbitrary: st)
  case Nil
  then show ?case by simp
next
  case (Cons t ts)
  show ?case
  proof (cases "fst (fetch_feed lower net now (topic_source t) (topic_feed_url t))")
    case (Inl a)
    with Cons.prems show ?thesis by simp
  next
    case (Inr entries)
    then have "entries = topic_entries lower net now t" by (simp add: topic_entries_def)
    then have "\<forall>x \<in> set (map (Pair t) entries). not_null (snd x)"
      by (auto simp: topic_entries_not_null)
    then have "fst (process_pairs lower now (map (Pair t) entries) st) = None"
      by (rule process_pairs_not_null_ok)
    then obtain st1 where "process_entries lower now t entries st = (None, st1)"
      by (cases "process_pairs lower now (map (Pair t) entries) st") (auto simp: process_entries_pairs)
    with Cons.prems Inr have "process_topics lower net now ts st1 = (Some err, st')" by simp
    from Cons.IH [OF this] show ?thesis by auto
  qed
qed

lemma process_topics_fails:
  "t \<in> set ts \<Longrightarrow> isl (fst (fetch_feed lower net now (topic_source t) (topic_feed_url t))) \<Longrightarrow>
     fst (process_topics lower net now ts st) \<noteq> None"
proof (induction ts arbitrary: st)
  case Nil
  then show ?case by simp
next
  case (Cons a ts)
  show ?case
  proof (cases "fst (fetch_feed lower net now (topic_source a) (topic_feed_url a))")
    case (Inl e)
    then show ?thesis by simp
  next
    case (Inr entries)
    with Cons.prems have t: "t \<in> set ts" by auto
    obtain e1 st1 where p: "process_entries lower now a entries st = (e1, st1)"
      by (cases "process_entries lower now a entries st") auto
    show ?thesis
    proof (cases e1)
      case None
      with p Inr Cons.IH [OF t Cons.prems(2), of st1] show ?thesis by simp
    next
      case (Some x)
      with p Inr show ?thesis by simp
    qed
  qed
qed

lemma process_topics_ok_fetches:
  "process_topics lower net now ts st = (None, st') \<Longrightarrow> t \<in> set ts \<Longrightarrow>
     \<not> isl (fst (fetch_feed lower net now (topic_source t) (topic_feed_url t)))"
  using process_topics_fails [of t ts lower net now st] by auto

lemma fetch_all_topics_failure:
  assumes "fetch_all_topics lower net now d = (Inl err, d')"
  shows "d' = d \<and> (\<exists>t \<in> set (get_active_topics (SessionLocal d)).
                     fst (fetch_feed lower net now (topic_source t) (topic_feed_url t)) = Inl err)"
proof -
  let ?s = "SessionLocal d"
  let ?st = "\<lparr>topics_checked = length (get_active_topics ?s), posts_created = 0, duplicates = 0\<rparr>"
  obtain e1 s1 st1 where p: "process_topics lower net now (get_active_topics ?s) (?s, ?st) = (e1, s1, st1)"
    by (cases "process_topics lower net now (get_active_topics ?s) (?s, ?st)") auto
  from assms p have e1: "e1 = Some err" and d': "d' = committed (rollback s1)"
    by (auto simp: fetch_all_topics_def Let_def split: option.splits)
  from process_topics_frame [OF p] have "committed s1 = d" by (simp add: SessionLocal_def)
  with d' have "d' = d" by (simp add: rollback_def)
  moreover from process_topics_error p e1
  have "\<exists>t \<in> set (get_active_topics ?s).
          fst (fetch_feed lower net now (topic_source t) (topic_feed_url t)) = Inl err"
    by blast
  ultimately show ?thesis by simp
qed

lemma fetch_all_topics_fails:
  assumes "t \<in> set (get_active_topics (SessionLocal d))"
    and "isl (fst (fetch_feed lower net now (topic_source t) (topic_feed_url t)))"
  shows "isl (fst (fetch_all_topics lower net now d))"
proof -
  let ?s = "SessionLocal d"
  let ?st = "\<lparr>topics_checked = length (get_active_topics ?s), posts_created = 0, duplicates = 0\<rparr>"
  from process_topics_fails [OF assms]
  have "fst (process_topics lower net now (get_active_topics ?s) (?s, ?st)) \<noteq> None" .
  then show ?thesis
    by (cases "process_topics lower net now (get_active_topics ?s) (?s, ?st)")
       (auto simp: fetch_all_topics_def Let_def)
qed


subsection \<open>One entry, and a run that fails\<close>

text \<open>
  C10: a normalized entry has a string title and a string link: the raw title, or the
  empty string when it is missing or \<^verbatim>\<open>None\<close>; the raw link, or else the raw id, or
  else the empty string. So the insertion of its post never violates a
  \<^verbatim>\<open>nullable=False\<close> column: processing the entry raises no integrity error, and a
  post it adds has that title and that link.
\<close>

theorem normalized_title_link_not_null:
  "entry_title (entry_to_dict now' raw source)
     = Some (case dict_get (raw_title raw) of None \<Rightarrow> [] | Some s \<Rightarrow> s)
   \<and> entry_link (entry_to_dict now' raw source)
     = Some (case dict_get (raw_link raw) of
               Some (c # cs) \<Rightarrow> c # cs
             | _ \<Rightarrow> (case dict_get (raw_id raw) of None \<Rightarrow> [] | Some s \<Rightarrow> s))
   \<and> (\<exists>s' st'. process_entry lower now t (entry_to_dict now' raw source) (s, st) = (None, s', st')
         \<and> (posts (working s') = posts (working s)
            \<or> (\<exists>p. posts (working s') = posts (working s) @ [p]
                 \<and> Some (post_title p) = entry_title (entry_to_dict now' raw source)
                 \<and> Some (post_link p) = entry_link (entry_to_dict now' raw source))))"
proof -
  let ?e = "entry_to_dict now' raw source"
  obtain err s' st' where p: "process_entry lower now t ?e (s, st) = (err, s', st')"
    by (cases "process_entry lower now t ?e (s, st)") auto
  have nn: "not_null ?e" by (rule not_null_entry_to_dict)
  from process_entry_cases [OF p] nn
  have "err = None \<and> (posts (working s') = posts (working s)
            \<or> (\<exists>p. posts (working s') = posts (working s) @ [p]
                 \<and> Some (post_title p) = entry_title ?e
                 \<and> Some (post_link p) = entry_link ?e))"
    by auto
  with p show ?thesis
    by (simp only: entry_to_dict_title entry_to_dict_link) blast
qed

text \<open>
  C4: the duplicate check comes first. An entry whose uid is persisted counts as a
  duplicate and changes nothing else, whatever the keywords of the topic; an entry that
  is no duplicate and fails the keyword filter changes nothing; the posts change only for
  an entry that is no duplicate and passes the filter, and such an entry (with string
  title, link and uid) adds one post with its uid and counts as created.
\<close>

theorem duplicate_check_before_keyword_filter:
  "(uid_exists s (entry_uid e) \<longrightarrow>
      process_entry lower now t e (s, st) = (None, s, st\<lparr>duplicates := duplicates st + 1\<rparr>))
   \<and> (\<not> uid_exists s (entry_uid e) \<and> \<not> should_keep_entry lower e (topic_keywords t) \<longrightarrow>
      process_entry lower now t e (s, st) = (None, s, st))
   \<and> (posts (working (fst (snd (process_entry lower now t e (s, st))))) \<noteq> posts (working s) \<longrightarrow>
      \<not> uid_exists s (entry_uid e) \<and> should_keep_entry lower e (topic_keywords t))
   \<and> (\<not> uid_exists s (entry_uid e) \<and> should_keep_entry lower e (topic_keywords t) \<and> not_null e \<longrightarrow>
      (\<exists>s' p. process_entry lower now t e (s, st)
                 = (None, s', st\<lparr>posts_created := posts_created st + 1\<rparr>)
         \<and> posts (working s') = posts (working s) @ [p]
         \<and> Some (post_uid p) = entry_uid e))"
proof -
  obtain err s' st' where p: "process_entry lower now t e (s, st) = (err, s', st')"
    by (cases "process_entry lower now t e (s, st)") auto
  from process_entry_cases [OF p] p show ?thesis
    by (auto simp: process_entry_duplicate process_entry_filtered)
qed

theorem duplicate_check_before_keyword_filter_witness:
  "uid_exists (SessionLocal ingested_db) (entry_uid (entry_to_dict 0 raw_renamed ''v2ex''))
   \<and> \<not> should_keep_entry sample_lower (entry_to_dict 0 raw_renamed ''v2ex'') (topic_keywords example_topic)
   \<and> process_entry sample_lower 5 example_topic (entry_to_dict 0 raw_renamed ''v2ex'')
        (SessionLocal ingested_db, \<lparr>topics_checked = 1, posts_created = 0, duplicates = 0\<rparr>)
      = (None, SessionLocal ingested_db, \<lparr>topics_checked = 1, posts_created = 0, duplicates = 1\<rparr>)
   \<and> \<not> uid_exists (SessionLocal ingested_db) (entry_uid (entry_to_dict 0 raw_other ''v2ex''))
   \<and> process_entry sample_lower 5 example_topic (entry_to_dict 0 raw_other ''v2ex'')
        (SessionLocal ingested_db, \<lparr>topics_checked = 1, posts_created = 0, duplicates = 0\<rparr>)
      = (None, SessionLocal ingested_db, \<lparr>topics_checked = 1, posts_created = 0, duplicates = 0\<rparr>)
   \<and> \<not> uid_exists (SessionLocal example_db) (entry_uid (entry_to_dict 0 raw_python ''v2ex''))
   \<and> should_keep_entry sample_lower (entry_to_dict 0 raw_python ''v2ex'') (topic_keywords example_topic)
   \<and> not_null (entry_to_dict 0 raw_python ''v2ex'')
   \<and> posts (working (fst (snd (process_entry sample_lower 0 example_topic (entry_to_dict 0 raw_python ''v2ex'')
        (SessionLocal example_db, \<lparr>topics_checked = 1, posts_created = 0, duplicates = 0\<rparr>)))))
      = posts ingested_db
   \<and> posts ingested_db \<noteq> posts (working (SessionLocal example_db))"
proof -
  let ?st = "\<lparr>topics_checked = 1, posts_created = 0, duplicates = 0\<rparr>"
  have a: "uid_exists (SessionLocal ingested_db) (entry_uid (entry_to_dict 0 raw_renamed ''v2ex''))"
    by code_simp
  have b: "\<not> should_keep_entry sample_lower (entry_to_dict 0 raw_renamed ''v2ex'')
               (topic_keywords example_topic)"
    by code_simp
  have c: "\<not> uid_exists (SessionLocal ingested_db) (entry_uid (entry_to_dict 0 raw_other ''v2ex''))"
    by code_simp
  have d: "\<not> should_keep_entry sample_lower (entry_to_dict 0 raw_other ''v2ex'') (topic_keywords example_topic)"
    by code_simp
  have e: "\<not> uid_exists (SessionLocal example_db) (entry_uid (entry_to_dict 0 raw_python ''v2ex''))"
    by code_simp
  have f: "should_keep_entry sample_lower (entry_to_dict 0 raw_python ''v2ex'') (topic_keywords example_topic)"
    by code_simp
  have g: "not_null (entry_to_dict 0 raw_python ''v2ex'')"
    by (rule not_null_entry_to_dict)
  have h: "posts (working (fst (snd (process_entry sample_lower 0 example_topic
             (entry_to_dict 0 raw_python ''v2ex'') (SessionLocal example_db, ?st)))))
           = posts ingested_db"
    by code_simp
  have i: "posts ingested_db \<noteq> posts (working (SessionLocal example_db))"
    by code_simp
  from h i have ne: "posts (working (fst (snd (process_entry sample_lower 0 example_topic
             (entry_to_dict 0 raw_python ''v2ex'') (SessionLocal example_db, ?st)))))
           \<noteq> posts (working (SessionLocal example_db))"
    by (simp only: not_False_eq_True)
  from duplicate_check_before_keyword_filter
      [of "SessionLocal ingested_db" "entry_to_dict 0 raw_renamed ''v2ex''" sample_lower 5
          example_topic ?st] a
  have r1: "process_entry sample_lower 5 example_topic (entry_to_dict 0 raw_renamed ''v2ex'')
              (SessionLocal ingested_db, ?st)
            = (None, SessionLocal ingested_db, ?st\<lparr>duplicates := duplicates ?st + 1\<rparr>)"
    by blast
  from duplicate_check_before_keyword_filter
      [of "SessionLocal ingested_db" "entry_to_dict 0 raw_other ''v2ex''" sample_lower 5
          example_topic ?st] c d
  have r2: "process_entry sample_lower 5 example_topic (entry_to_dict 0 raw_other ''v2ex'')
              (SessionLocal ingested_db, ?st)
            = (None, SessionLocal ingested_db, ?st)"
    by blast
  from duplicate_check_before_keyword_filter
      [of "SessionLocal example_db" "entry_to_dict 0 raw_python ''v2ex''" sample_lower 0
          example_topic ?st]
    ne
  have r3: "\<not> uid_exists (SessionLocal example_db) (entry_uid (entry_to_dict 0 raw_python ''v2ex''))
            \<and> should_keep_entry sample_lower (entry_to_dict 0 raw_python ''v2ex'')
                 (topic_keywords example_topic)"
    by blast
  from r1 have r1': "process_entry sample_lower 5 example_topic (entry_to_dict 0 raw_renamed ''v2ex'')
              (SessionLocal ingested_db, ?st)
            = (None, SessionLocal ingested_db,
               \<lparr>topics_checked = 1, posts_created = 0, duplicates = 1\<rparr>)"
    by simp
  from a b r1' c r2 r3 g h i show ?thesis by blast
qed

text \<open>
  C3: when the fetch of an active topic fails, the run raises the error of a failed
  fetch and the persisted state is the state before the run: nothing the run added
  earlier is kept.
\<close>

theorem fetch_all_topics_aborts_atomically:
  assumes "t \<in> set (get_active_topics (SessionLocal d))"
    and "isl (fst (fetch_feed lower net now (topic_source t) (topic_feed_url t)))"
  shows "\<exists>err. fetch_all_topics lower net now d = (Inl err, d)
           \<and> (\<exists>t' \<in> set (get_active_topics (SessionLocal d)).
                 fst (fetch_feed lower net now (topic_source t') (topic_feed_url t')) = Inl err)"
proof -
  from fetch_all_topics_fails [OF assms]
  obtain err d' where r: "fetch_all_topics lower net now d = (Inl err, d')"
    by (cases "fetch_all_topics lower net now d"; cases "fst (fetch_all_topics lower net now d)") auto
  from fetch_all_topics_failure [OF r] r show ?thesis by blast
qed

theorem fetch_all_topics_aborts_atomically_witness:
  "broken_topic \<in> set (get_active_topics (SessionLocal example_db2))
   \<and> isl (fst (fetch_feed sample_lower example_net 0 (topic_source broken_topic) (topic_feed_url broken_topic)))
   \<and> posts (working (fst (snd (process_topics sample_lower example_net 0 [example_topic]
        (SessionLocal example_db2, \<lparr>topics_checked = 2, posts_created = 0, duplicates = 0\<rparr>)))))
      = posts ingested_db
   \<and> fetch_all_topics sample_lower example_net 0 example_db2 = (Inl (HTTPError ''Network error''), example_db2)"
proof -
  have a: "broken_topic \<in> set (get_active_topics (SessionLocal example_db2))"
    by code_simp
  have b: "isl (fst (fetch_feed sample_lower example_net 0 (topic_source broken_topic)
                       (topic_feed_url broken_topic)))"
    by code_simp
  have c: "posts (working (fst (snd (process_topics sample_lower example_net 0 [example_topic]
             (SessionLocal example_db2,
              \<lparr>topics_checked = 2, posts_created = 0, duplicates = 0\<rparr>)))))
           = posts ingested_db"
    by code_simp
  have f: "fst (fetch_feed sample_lower example_net 0 (topic_source example_topic) (topic_feed_url example_topic))
             \<noteq> Inl (HTTPError ''Network error'')"
    by code_simp
  have g: "fst (fetch_feed sample_lower example_net 0 (topic_source broken_topic) (topic_feed_url broken_topic))
             = Inl (HTTPError ''Network error'')"
    by code_simp
  have ts: "get_active_topics (SessionLocal example_db2) = [example_topic, broken_topic]"
    by code_simp
  from fetch_all_topics_aborts_atomically [OF a b]
  obtain err where r: "fetch_all_topics sample_lower example_net 0 example_db2 = (Inl err, example_db2)"
    and t: "\<exists>t' \<in> set (get_active_topics (SessionLocal example_db2)).
              fst (fetch_feed sample_lower example_net 0 (topic_source t') (topic_feed_url t')) = Inl err"
    by blast
  from t ts g have "err = HTTPError ''Network error'' \<or>
      fst (fetch_feed sample_lower example_net 0 (topic_source example_topic) (topic_feed_url example_topic))
        = Inl err"
    by auto
  moreover have "\<And>x. fst (fetch_feed sample_lower example_net 0 (topic_source example_topic)
                              (topic_feed_url example_topic)) \<noteq> Inl x"
    by code_simp
  ultimately have "err = HTTPError ''Network error''" by blast
  with a b c r show ?thesis by simp
qed


section \<open>Properties of the topic operations\<close>

text \<open>
  C7: creating a topic whose name a persisted topic already has is answered with the
  client error 400 and the detail that the name exists, not with a server error, and
  the persisted state is unchanged.
\<close>

theorem create_topic_conflict:
  assumes "create_name topic_in \<in> set (map topic_name (topics d))"
  shows "create_topic now topic_in d
           = (HTTPException 400 ''Topic with the same name already exists.'', d)"
  using assms
  by (simp add: create_topic_def crud_create_topic_def insert_topic_def SessionLocal_def
        rollback_def Let_def)

theorem create_topic_conflict_witness:
  "create_name same_name_request \<in> set (map topic_name (topics example_db))
   \<and> create_topic 100 same_name_request example_db
       = (HTTPException 400 ''Topic with the same name already exists.'', example_db)"
proof -
  have a: "create_name same_name_request \<in> set (map topic_name (topics example_db))"
    by code_simp
  from create_topic_conflict [OF a] a show ?thesis by blast
qed

lemma assign_cases:
  "(case u of Unset \<Rightarrow> assign u old = old | Set v \<Rightarrow> assign u old = v)"
  by (cases u) (simp_all add: assign_def)

lemma filter_replace_row:
  "topic_id row = k \<Longrightarrow>
     filter (\<lambda>r. topic_id r \<noteq> k) (map (\<lambda>r. if topic_id r = k then row else r) xs)
       = filter (\<lambda>r. topic_id r \<noteq> k) xs"
  by (induction xs) auto

lemma update_row_result:
  assumes "update_row now t obj d = Inr (d', t')"
  shows "attrs_of t' = obj \<and> topic_id t' = topic_id t
         \<and> topic_created_at t' = topic_created_at t
         \<and> topic_updated_at t' = (if obj = attrs_of t then topic_updated_at t else now)
         \<and> filter (\<lambda>r. topic_id r \<noteq> topic_id t) (topics d')
             = filter (\<lambda>r. topic_id r \<noteq> topic_id t) (topics d)
         \<and> posts d' = posts d \<and> push_logs d' = push_logs d"
proof (cases "obj = attrs_of t")
  case True
  with assms show ?thesis by (simp add: update_row_def)
next
  case False
  obtain n so f k a where obj: "obj = \<lparr>attr_name = n, attr_source = so, attr_feed_url = f,
                                        attr_keywords = k, attr_is_active = a\<rparr>"
    by (cases obj) auto
  from assms False obj obtain n' so' f' a' where
    some: "n = Some n'" "so = Some so'" "f = Some f'" "a = Some a'"
    by (auto simp: update_row_def split: option.splits)
  let ?row = "t\<lparr>topic_name := n', topic_source := so', topic_feed_url := f',
                   topic_keywords := k, topic_is_active := a', topic_updated_at := now\<rparr>"
  from assms False obj some have t': "t' = ?row"
    and d': "d' = d\<lparr>topics := map (\<lambda>r. if topic_id r = topic_id t then ?row else r) (topics d)\<rparr>"
    by (auto simp: update_row_def Let_def split: if_splits)
  have "topic_id ?row = topic_id t" by simp
  from filter_replace_row [OF this]
  have "filter (\<lambda>r. topic_id r \<noteq> topic_id t) (topics d')
          = filter (\<lambda>r. topic_id r \<noteq> topic_id t) (topics d)"
    by (simp add: d')
  moreover from False t' have "topic_updated_at t' = (if obj = attrs_of t then topic_updated_at t else now)"
    by (simp only: if_False) simp
  moreover from t' obj some have "attrs_of t' = obj" by (simp add: attrs_of_def)
  moreover from t' have "topic_id t' = topic_id t \<and> topic_created_at t' = topic_created_at t"
    by simp
  moreover from d' have "posts d' = posts d \<and> push_logs d' = push_logs d" by simp
  ultimately show ?thesis by blast
qed

lemma replace_row_self:
  assumes "distinct (map topic_id xs)" and "t \<in> set xs"
  shows "map (\<lambda>r. if topic_id r = topic_id t then t else r) xs = xs"
proof (rule map_idI)
  fix r assume r: "r \<in> set xs"
  from assms(1) have "inj_on topic_id (set xs)" by (simp add: distinct_map)
  with r assms(2) have "topic_id r = topic_id t \<Longrightarrow> r = t" by (auto dest: inj_onD)
  then show "(if topic_id r = topic_id t then t else r) = r" by auto
qed

lemma update_row_stored:
  assumes "update_row now t obj d = Inr (d', t')"
  shows "(t \<in> set (topics d) \<longrightarrow> t' \<in> set (topics d'))
         \<and> (distinct (map topic_id (topics d)) \<and> t \<in> set (topics d) \<longrightarrow>
              topics d' = map (\<lambda>r. if topic_id r = topic_id t then t' else r) (topics d))"
proof (cases "obj = attrs_of t")
  case True
  with assms have "d' = d" "t' = t" by (simp_all add: update_row_def)
  then show ?thesis by (auto simp: replace_row_self)
next
  case False
  from assms False obtain n' so' f' a' where
    some: "attr_name obj = Some n'" "attr_source obj = Some so'"
      "attr_feed_url obj = Some f'" "attr_is_active obj = Some a'"
    by (auto simp: update_row_def split: option.splits)
  let ?row = "t\<lparr>topic_name := n', topic_source := so', topic_feed_url := f',
                   topic_keywords := attr_keywords obj, topic_is_active := a',
                   topic_updated_at := now\<rparr>"
  from assms False some have t': "t' = ?row"
    and d': "d' = d\<lparr>topics := map (\<lambda>r. if topic_id r = topic_id t then ?row else r) (topics d)\<rparr>"
    by (auto simp: update_row_def Let_def split: if_splits)
  have "t \<in> set (topics d) \<Longrightarrow> ?row \<in> set (topics d')"
    by (auto simp: d' image_iff intro: bexI [where x = t])
  with t' d' show ?thesis by simp
qed

text \<open>
  C8: an update that commits gives each of \<^verbatim>\<open>name\<close>, \<^verbatim>\<open>source\<close>, \<^verbatim>\<open>feed_url\<close>,
  \<^verbatim>\<open>keywords\<close> and \<^verbatim>\<open>is_active\<close> the value the payload sets and leaves it as it was
  when the payload does not set it; \<^verbatim>\<open>id\<close> and \<^verbatim>\<open>created_at\<close> stay, and so do the other
  topics, the posts and the logs. The \<^verbatim>\<open>updated_at\<close> time, which no payload sets, stays
  only when no value changed, and is the time of the update otherwise. The topic so
  described is the one that is persisted: the committed table is the table before the
  update with the row of the topic replaced by it.
\<close>

theorem update_topic_partial:
  assumes "crud_update_topic now t topic_in s = (Inr t', s')"
  shows "(case update_name topic_in of
            Unset \<Rightarrow> topic_name t' = topic_name t
          | Set v \<Rightarrow> v = Some (topic_name t'))
       \<and> (case update_source topic_in of
            Unset \<Rightarrow> topic_source t' = topic_source t
          | Set v \<Rightarrow> v = Some (topic_source t'))
       \<and> (case update_feed_url topic_in of
            Unset \<Rightarrow> topic_feed_url t' = topic_feed_url t
          | Set v \<Rightarrow> v = Some (topic_feed_url t'))
       \<and> (case update_keywords topic_in of
            Unset \<Rightarrow> topic_keywords t' = topic_keywords t
          | Set v \<Rightarrow> v = topic_keywords t')
       \<and> (case update_is_active topic_in of
            Unset \<Rightarrow> topic_is_active t' = topic_is_active t
          | Set v \<Rightarrow> v = Some (topic_is_active t'))
       \<and> topic_id t' = topic_id t
       \<and> topic_created_at t' = topic_created_at t
       \<and> topic_updated_at t'
           = (if attrs_of t' = attrs_of t then topic_updated_at t else now)
       \<and> committed s' = working s'
       \<and> filter (\<lambda>r. topic_id r \<noteq> topic_id t) (topics (committed s'))
           = filter (\<lambda>r. topic_id r \<noteq> topic_id t) (topics (working s))
       \<and> posts (committed s') = posts (working s)
       \<and> push_logs (committed s') = push_logs (working s)
       \<and> (t \<in> set (topics (working s)) \<longrightarrow> t' \<in> set (topics (committed s')))
       \<and> (distinct (map topic_id (topics (working s))) \<and> t \<in> set (topics (working s)) \<longrightarrow>
            topics (committed s')
              = map (\<lambda>r. if topic_id r = topic_id t then t' else r) (topics (working s)))"
proof -
  let ?obj = "setattrs topic_in (attrs_of t)"
  from assms obtain d' where u: "update_row now t ?obj (working s) = Inr (d', t')"
    and s': "s' = commit (s\<lparr>working := d'\<rparr>)"
    by (auto simp: crud_update_topic_def Let_def split: sum.splits)
  note obj = update_row_result [OF u]
  from obj have a: "attr_name ?obj = Some (topic_name t')"
    and b: "attr_source ?obj = Some (topic_source t')"
    and c: "attr_feed_url ?obj = Some (topic_feed_url t')"
    and d: "attr_keywords ?obj = topic_keywords t'"
    and e: "attr_is_active ?obj = Some (topic_is_active t')"
    by (auto simp: attrs_of_def dest: arg_cong [where f = attr_name]
          arg_cong [where f = attr_source] arg_cong [where f = attr_feed_url]
          arg_cong [where f = attr_keywords] arg_cong [where f = attr_is_active])
  have 1: "(case update_name topic_in of
              Unset \<Rightarrow> topic_name t' = topic_name t
            | Set v \<Rightarrow> v = Some (topic_name t'))"
    using a by (cases "update_name topic_in") (auto simp: setattrs_def assign_def attrs_of_def)
  have 2: "(case update_source topic_in of
              Unset \<Rightarrow> topic_source t' = topic_source t
            | Set v \<Rightarrow> v = Some (topic_source t'))"
    using b by (cases "update_source topic_in") (auto simp: setattrs_def assign_def attrs_of_def)
  have 3: "(case update_feed_url topic_in of
              Unset \<Rightarrow> topic_feed_url t' = topic_feed_url t
            | Set v \<Rightarrow> v = Some (topic_feed_url t'))"
    using c by (cases "update_feed_url topic_in") (auto simp: setattrs_def assign_def attrs_of_def)
  have 4: "(case update_keywords topic_in of
              Unset \<Rightarrow> topic_keywords t' = topic_keywords t
            | Set v \<Rightarrow> v = topic_keywords t')"
    using d by (cases "update_keywords topic_in") (auto simp: setattrs_def assign_def attrs_of_def)
  have 5: "(case update_is_active topic_in of
              Unset \<Rightarrow> topic_is_active t' = topic_is_active t
            | Set v \<Rightarrow> v = Some (topic_is_active t'))"
    using e by (cases "update_is_active topic_in") (auto simp: setattrs_def assign_def attrs_of_def)
  from obj have 6: "topic_updated_at t'
                      = (if attrs_of t' = attrs_of t then topic_updated_at t else now)"
    by simp
  from obj s' have 7: "committed s' = working s'
       \<and> filter (\<lambda>r. topic_id r \<noteq> topic_id t) (topics (committed s'))
           = filter (\<lambda>r. topic_id r \<noteq> topic_id t) (topics (working s))
       \<and> posts (committed s') = posts (working s)
       \<and> push_logs (committed s') = push_logs (working s)"
    by (simp add: commit_def)
  from update_row_stored [OF u] s' have 8:
    "(t \<in> set (topics (working s)) \<longrightarrow> t' \<in> set (topics (committed s')))
     \<and> (distinct (map topic_id (topics (working s))) \<and> t \<in> set (topics (working s)) \<longrightarrow>
          topics (committed s')
            = map (\<lambda>r. if topic_id r = topic_id t then t' else r) (topics (working s)))"
    by (simp add: commit_def)
  from 1 2 3 4 5 6 7 8 obj show ?thesis by blast
qed

theorem update_topic_partial_witness:
  "crud_update_topic 100 example_topic deactivate (SessionLocal example_db2)
     = (Inr (example_topic\<lparr>topic_is_active := False, topic_updated_at := 100\<rparr>),
        SessionLocal (example_db2\<lparr>topics :=
          [example_topic\<lparr>topic_is_active := False, topic_updated_at := 100\<rparr>,
           broken_topic]\<rparr>))
   \<and> example_topic \<in> set (topics (working (SessionLocal example_db2)))
   \<and> distinct (map topic_id (topics (working (SessionLocal example_db2))))
   \<and> topic_name (example_topic\<lparr>topic_is_active := False, topic_updated_at := 100\<rparr>)
       = topic_name example_topic
   \<and> topics (committed (SessionLocal (example_db2\<lparr>topics :=
          [example_topic\<lparr>topic_is_active := False, topic_updated_at := 100\<rparr>,
           broken_topic]\<rparr>)))
       = [example_topic\<lparr>topic_is_active := False, topic_updated_at := 100\<rparr>, broken_topic]"
proof -
  let ?t' = "example_topic\<lparr>topic_is_active := False, topic_updated_at := 100\<rparr>"
  let ?s' = "SessionLocal (example_db2\<lparr>topics := [?t', broken_topic]\<rparr>)"
  have r: "crud_update_topic 100 example_topic deactivate (SessionLocal example_db2)
             = (Inr ?t', ?s')"
    by code_simp
  have a: "example_topic \<in> set (topics (working (SessionLocal example_db2)))"
    by code_simp
  have b: "distinct (map topic_id (topics (working (SessionLocal example_db2))))"
    by code_simp
  have u: "update_name deactivate = Unset" by code_simp
  have m: "map (\<lambda>r. if topic_id r = topic_id example_topic then ?t' else r)
             (topics (working (SessionLocal example_db2))) = [?t', broken_topic]"
    by code_simp
  note part = update_topic_partial [OF r]
  from part u have n: "topic_name ?t' = topic_name example_topic" by simp
  from part a b have "topics (committed ?s')
      = map (\<lambda>r. if topic_id r = topic_id example_topic then ?t' else r)
          (topics (working (SessionLocal example_db2)))"
    by blast
  with m have c: "topics (committed ?s') = [?t', broken_topic]" by (simp only:)
  from r a b n c show ?thesis by blast
qed

theorem update_topic_changes_updated_at:
  "fst (crud_update_topic 100 example_topic deactivate (SessionLocal example_db))
     = Inr (example_topic\<lparr>topic_is_active := False, topic_updated_at := 100\<rparr>)
   \<and> update_is_active deactivate = Set (Some False)
   \<and> topic_updated_at (example_topic\<lparr>topic_is_active := False, topic_updated_at := 100\<rparr>) = 100
   \<and> topic_updated_at example_topic = 0"
  by code_simp


section \<open>Running the task twice\<close>

lemma process_entry_settled:
  assumes "entry_uid e \<in> uids s \<or> \<not> should_keep_entry lower e (topic_keywords t)"
  shows "process_entry lower now t e (s, st)
           = (None, s, st\<lparr>duplicates := duplicates st + (if entry_uid e \<in> uids s then 1 else 0)\<rparr>)"
  using assms by (auto simp: process_entry_def uid_exists_uids)

lemma process_pairs_settled:
  "\<forall>x \<in> set xs. fst (pair_key lower x) \<in> uids s \<or> \<not> snd (pair_key lower x) \<Longrightarrow>
     process_pairs lower now xs (s, st)
       = (None, s, st\<lparr>duplicates :=
            duplicates st + length (filter (\<lambda>x. fst (pair_key lower x) \<in> uids s) xs)\<rparr>)"
proof (induction xs arbitrary: st)
  case Nil
  then show ?case by simp
next
  case (Cons x xs)
  let ?n = "if entry_uid (snd x) \<in> uids s then 1 else 0 :: nat"
  from Cons.prems
  have "entry_uid (snd x) \<in> uids s \<or> \<not> should_keep_entry lower (snd x) (topic_keywords (fst x))"
    by (simp add: pair_key_def)
  from process_entry_settled [OF this]
  have h: "process_entry lower now (fst x) (snd x) (s, st)
             = (None, s, st\<lparr>duplicates := duplicates st + ?n\<rparr>)" .
  from Cons.prems have "\<forall>x \<in> set xs. fst (pair_key lower x) \<in> uids s \<or> \<not> snd (pair_key lower x)"
    by simp
  from Cons.IH [OF this, of "st\<lparr>duplicates := duplicates st + ?n\<rparr>"] h
  show ?case by (simp add: pair_key_def)
qed

lemma process_entry_created:
  assumes "process_entry lower now t e (s, st) = (None, s', st')"
    and "entry_uid e \<notin> uids s" and "should_keep_entry lower e (topic_keywords t)"
  shows "uids s' = insert (entry_uid e) (uids s)
         \<and> st' = st\<lparr>posts_created := posts_created st + 1\<rparr>"
proof -
  from process_entry_cases [OF assms(1)] assms(2,3)
  obtain p where "posts (working s') = posts (working s) @ [p]"
    and "Some (post_uid p) = entry_uid e"
    and "st' = st\<lparr>posts_created := posts_created st + 1\<rparr>"
    by (auto simp: uid_exists_uids)
  then show ?thesis by (auto simp: uids_def)
qed

lemma process_pairs_success:
  "process_pairs lower now xs (s, st) = (None, s', st') \<Longrightarrow>
     \<forall>x \<in> set xs. fst (pair_key lower x) \<in> uids s' \<or> \<not> snd (pair_key lower x)"
proof (induction xs arbitrary: s st)
  case Nil
  then show ?case by simp
next
  case (Cons x xs)
  obtain e1 s1 st1 where p: "process_entry lower now (fst x) (snd x) (s, st) = (e1, s1, st1)"
    by (cases "process_entry lower now (fst x) (snd x) (s, st)") auto
  with Cons.prems have e1: "e1 = None" by (cases e1) auto
  with Cons.prems p have rest: "process_pairs lower now xs (s1, st1) = (None, s', st')" by simp
  from process_pairs_frame [OF rest] have mono: "uids s1 \<subseteq> uids s'" by simp
  have "fst (pair_key lower x) \<in> uids s1 \<or> \<not> snd (pair_key lower x)"
  proof (cases "entry_uid (snd x) \<in> uids s \<or> \<not> should_keep_entry lower (snd x) (topic_keywords (fst x))")
    case True
    from process_entry_settled [OF True, of now st] p have "s1 = s" by simp
    with True show ?thesis by (auto simp: pair_key_def)
  next
    case False
    with process_entry_created [of lower now "fst x" "snd x" s st s1 st1] p e1
    show ?thesis by (auto simp: pair_key_def)
  qed
  with mono Cons.IH [OF rest] show ?case by auto
qed

lemma process_pairs_fresh:
  "process_pairs lower now xs (s, st) = (None, s', st') \<Longrightarrow>
   distinct (map (\<lambda>x. fst (pair_key lower x)) xs) \<Longrightarrow>
   \<forall>x \<in> set xs. fst (pair_key lower x) \<notin> uids s \<Longrightarrow>
     uids s' = uids s \<union> (\<lambda>x. fst (pair_key lower x)) ` {x \<in> set xs. snd (pair_key lower x)}
     \<and> posts_created st' = posts_created st + length (filter (\<lambda>x. snd (pair_key lower x)) xs)
     \<and> duplicates st' = duplicates st"
proof (induction xs arbitrary: s st)
  case Nil
  then show ?case by simp
next
  case (Cons x xs)
  obtain e1 s1 st1 where p: "process_entry lower now (fst x) (snd x) (s, st) = (e1, s1, st1)"
    by (cases "process_entry lower now (fst x) (snd x) (s, st)") auto
  with Cons.prems(1) have e1: "e1 = None" by (cases e1) auto
  with Cons.prems(1) p have rest: "process_pairs lower now xs (s1, st1) = (None, s', st')" by simp
  from Cons.prems(2) have dist: "distinct (map (\<lambda>x. fst (pair_key lower x)) xs)"
    by simp
  from Cons.prems(2) have "fst (pair_key lower x) \<notin> (\<lambda>x. fst (pair_key lower x)) ` set xs"
    by simp
  then have new: "\<forall>y \<in> set xs. fst (pair_key lower y) \<noteq> fst (pair_key lower x)"
    by (metis imageI)
  from Cons.prems(3) have fresh_x: "entry_uid (snd x) \<notin> uids s"
    and fresh: "\<forall>y \<in> set xs. fst (pair_key lower y) \<notin> uids s"
    by (auto simp: pair_key_def)
  show ?case
  proof (cases "snd (pair_key lower x)")
    case False
    then have "entry_uid (snd x) \<in> uids s \<or> \<not> should_keep_entry lower (snd x) (topic_keywords (fst x))"
      by (simp add: pair_key_def)
    from process_entry_settled [OF this, of now st] p fresh_x have "s1 = s" "st1 = st" by auto
    with Cons.IH [OF rest dist] fresh False show ?thesis by auto
  next
    case True
    then have k: "should_keep_entry lower (snd x) (topic_keywords (fst x))" by (simp add: pair_key_def)
    from process_entry_created [of lower now "fst x" "snd x" s st s1 st1] p e1 fresh_x k
    have s1: "uids s1 = insert (entry_uid (snd x)) (uids s)"
      and st1: "st1 = st\<lparr>posts_created := posts_created st + 1\<rparr>"
      by auto
    from s1 new fresh have "\<forall>y \<in> set xs. fst (pair_key lower y) \<notin> uids s1"
      by (auto simp: pair_key_def)
    from Cons.IH [OF rest dist this] s1 st1 True show ?thesis
      by (auto simp: pair_key_def)
  qed
qed

lemma filter_fresh_keys:
  assumes "distinct (map fst ks)" and "\<forall>k \<in> set ks. fst k \<notin> U"
  shows "filter (\<lambda>k. fst k \<in> U \<union> fst ` {k \<in> set ks. snd k}) ks = filter snd ks"
proof (rule filter_cong [OF refl])
  fix k assume k: "k \<in> set ks"
  from assms(1) have inj: "inj_on fst (set ks)" by (simp add: distinct_map)
  show "(fst k \<in> U \<union> fst ` {k \<in> set ks. snd k}) = snd k"
  proof
    assume "fst k \<in> U \<union> fst ` {k \<in> set ks. snd k}"
    with assms(2) k obtain k' where "k' \<in> set ks" "snd k'" "fst k = fst k'" by auto
    with inj k show "snd k" by (auto dest: inj_onD)
  next
    assume "snd k"
    with k show "fst k \<in> U \<union> fst ` {k \<in> set ks. snd k}" by auto
  qed
qed

subsection \<open>The entries of a run do not depend on the time, but for their dates\<close>

lemma pair_key_now:
  "pair_key lower (t, entry_to_dict now2 raw source) = pair_key lower (t, entry_to_dict now1 raw source)"
  by (simp add: pair_key_def should_keep_entry_def entry_to_dict_def Let_def)

lemma fetch_feed_now:
  "fst (fetch_feed lower net now source feed_url) =
     (if lower source \<in> {''v2ex'', ''nodeseek'', ''linux.do''}
      then (case net feed_url of
              Inl err \<Rightarrow> Inl err
            | Inr raws \<Rightarrow> Inr (map (\<lambda>raw. entry_to_dict now raw (lower source)) raws))
      else Inl (ValueError (''Unsupported source: '' @ source)))"
  by (auto simp: fetch_feed_def fetchers_def fetch_v2ex_feed_def fetch_nodeseek_feed_def
        fetch_linux_do_feed_def fetch_generic_feed_def fetch_and_parse_def split: sum.splits)

lemma fetch_feed_isl_now:
  "isl (fst (fetch_feed lower net now2 source feed_url)) = isl (fst (fetch_feed lower net now1 source feed_url))"
  by (simp add: fetch_feed_now split: sum.splits)

lemma topic_entries_keys_now:
  "map (pair_key lower) (map (Pair t) (topic_entries lower net now2 t))
     = map (pair_key lower) (map (Pair t) (topic_entries lower net now1 t))"
  by (simp add: topic_entries_def fetch_feed_now pair_key_now comp_def split: sum.splits)

lemma feed_pairs_keys_now:
  "map (pair_key lower) (feed_pairs lower net now2 ts) = map (pair_key lower) (feed_pairs lower net now1 ts)"
proof (induction ts)
  case Nil
  then show ?case by (simp add: feed_pairs_def)
next
  case (Cons t ts)
  have "\<And>now. feed_pairs lower net now (t # ts)
          = map (Pair t) (topic_entries lower net now t) @ feed_pairs lower net now ts"
    by (simp add: feed_pairs_def)
  with Cons topic_entries_keys_now [of lower t net now2 now1] show ?case by simp
qed

subsection \<open>A run as one loop over its entries\<close>

lemma uids_SessionLocal: "uids (SessionLocal (working s)) = uids s"
  by (simp add: uids_def SessionLocal_def)

lemma get_active_topics_topics:
  "topics (working s') = topics (working s) \<Longrightarrow> get_active_topics s' = get_active_topics s"
  by (simp add: get_active_topics_def)

lemma length_filter_keys:
  "length (filter (\<lambda>x. P (pair_key lower x)) xs) = length (filter P (map (pair_key lower) xs))"
  by (induction xs) auto

lemma fetch_all_topics_success:
  assumes "fetch_all_topics lower net now d = (Inr st1, d1)"
  shows "\<exists>s1. process_pairs lower now (run_pairs lower net now d)
                 (SessionLocal d,
                  \<lparr>topics_checked = length (get_active_topics (SessionLocal d)),
                    posts_created = 0, duplicates = 0\<rparr>) = (None, s1, st1)
              \<and> d1 = working s1
              \<and> topics (working s1) = topics d
              \<and> topics_checked st1 = length (get_active_topics (SessionLocal d))
              \<and> (\<forall>t \<in> set (get_active_topics (SessionLocal d)).
                    \<not> isl (fst (fetch_feed lower net now (topic_source t) (topic_feed_url t))))"
proof -
  let ?s = "SessionLocal d"
  let ?ts = "get_active_topics ?s"
  let ?st = "\<lparr>topics_checked = length ?ts, posts_created = 0, duplicates = 0\<rparr>"
  obtain e1 s1 st' where p: "process_topics lower net now ?ts (?s, ?st) = (e1, s1, st')"
    by (cases "process_topics lower net now ?ts (?s, ?st)") auto
  from assms p have e1: "e1 = None" and st': "st' = st1" and d1: "d1 = committed (commit s1)"
    by (auto simp: fetch_all_topics_def Let_def split: option.splits)
  from p e1 have ok: "\<forall>t \<in> set ?ts.
      \<not> isl (fst (fetch_feed lower net now (topic_source t) (topic_feed_url t)))"
    using process_topics_ok_fetches [of lower net now ?ts "(?s, ?st)" "(s1, st')"] by blast
  from process_topics_pairs [OF ok] p e1 st'
  have "process_pairs lower now (run_pairs lower net now d) (?s, ?st) = (None, s1, st1)"
    by (simp add: run_pairs_def)
  moreover from d1 have "d1 = working s1" by (simp add: commit_def)
  moreover from process_topics_frame [OF p] st'
  have "topics (working s1) = topics d \<and> topics_checked st1 = length ?ts"
    by (simp add: SessionLocal_def)
  ultimately show ?thesis using ok by blast
qed

lemma fetch_all_topics_pairs:
  assumes "\<forall>t \<in> set (get_active_topics (SessionLocal d)).
             \<not> isl (fst (fetch_feed lower net now (topic_source t) (topic_feed_url t)))"
    and "process_pairs lower now (run_pairs lower net now d)
           (SessionLocal d,
            \<lparr>topics_checked = length (get_active_topics (SessionLocal d)),
              posts_created = 0, duplicates = 0\<rparr>) = (None, s', st')"
  shows "fetch_all_topics lower net now d = (Inr st', working s')"
  using process_topics_pairs [OF assms(1)] assms(2)
  by (simp add: fetch_all_topics_def run_pairs_def Let_def commit_def)

text \<open>
  C1: after a run that succeeds, a second run on the same feeds creates no post and
  leaves the persisted state as it is, and its duplicates counter is the number of
  fetched entries whose uid is persisted. When the uids of the entries of the first run
  are pairwise distinct and none was persisted before it, the first run counts no
  duplicate and creates one post for each entry that passes the keyword filter, and the
  duplicates counter of the second run is the number of posts the first run created: the
  entries that were filtered out count neither as created nor as duplicates.
\<close>

theorem second_run_creates_nothing:
  assumes "fetch_all_topics lower net now1 d = (Inr st1, d1)"
  shows "fetch_all_topics lower net now2 d1 =
           (Inr \<lparr>topics_checked = topics_checked st1, posts_created = 0,
                 duplicates = length (filter (\<lambda>x. uid_exists (SessionLocal d1) (entry_uid (snd x)))
                                        (run_pairs lower net now2 d1))\<rparr>, d1)
       \<and> (distinct (map (\<lambda>x. entry_uid (snd x)) (run_pairs lower net now1 d))
          \<and> (\<forall>x \<in> set (run_pairs lower net now1 d). \<not> uid_exists (SessionLocal d) (entry_uid (snd x)))
          \<longrightarrow> posts_created st1
                = length (filter (\<lambda>x. should_keep_entry lower (snd x) (topic_keywords (fst x)))
                            (run_pairs lower net now1 d))
              \<and> duplicates st1 = 0
              \<and> fetch_all_topics lower net now2 d1 =
                  (Inr \<lparr>topics_checked = topics_checked st1, posts_created = 0,
                        duplicates = posts_created st1\<rparr>, d1))"
proof -
  let ?ts = "get_active_topics (SessionLocal d)"
  let ?st0 = "\<lparr>topics_checked = length ?ts, posts_created = 0, duplicates = 0\<rparr>"
  let ?xs1 = "run_pairs lower net now1 d"
  let ?xs2 = "run_pairs lower net now2 d1"
  let ?s2 = "SessionLocal d1"
  from fetch_all_topics_success [OF assms] obtain s1 where
    run1: "process_pairs lower now1 ?xs1 (SessionLocal d, ?st0) = (None, s1, st1)"
    and d1: "d1 = working s1"
    and tops: "topics (working s1) = topics d"
    and checked: "topics_checked st1 = length ?ts"
    and ok1: "\<forall>t \<in> set ?ts. \<not> isl (fst (fetch_feed lower net now1 (topic_source t) (topic_feed_url t)))"
    by blast
  have active: "get_active_topics ?s2 = ?ts"
    using d1 tops by (simp add: get_active_topics_def SessionLocal_def)
  have u2: "uids ?s2 = uids s1" using d1 by (simp add: uids_SessionLocal)
  have keys: "map (pair_key lower) ?xs2 = map (pair_key lower) ?xs1"
    using active by (simp add: run_pairs_def feed_pairs_keys_now)
  from process_pairs_success [OF run1]
  have "\<forall>k \<in> set (map (pair_key lower) ?xs1). fst k \<in> uids s1 \<or> \<not> snd k" by simp
  with keys u2 have "\<forall>k \<in> set (map (pair_key lower) ?xs2). fst k \<in> uids ?s2 \<or> \<not> snd k" by simp
  then have settled: "\<forall>x \<in> set ?xs2. fst (pair_key lower x) \<in> uids ?s2 \<or> \<not> snd (pair_key lower x)"
    by simp
  let ?n = "length (filter (\<lambda>x. fst (pair_key lower x) \<in> uids ?s2) ?xs2)"
  from process_pairs_settled [OF settled, of now2 ?st0]
  have run2: "process_pairs lower now2 ?xs2 (?s2, ?st0) = (None, ?s2, ?st0\<lparr>duplicates := ?n\<rparr>)"
    by simp
  from ok1 have ok2: "\<forall>t \<in> set (get_active_topics ?s2).
      \<not> isl (fst (fetch_feed lower net now2 (topic_source t) (topic_feed_url t)))"
    by (simp add: active fetch_feed_isl_now [of lower net now2 _ _ now1])
  from fetch_all_topics_pairs [OF ok2] run2
  have r2: "fetch_all_topics lower net now2 d1 = (Inr (?st0\<lparr>duplicates := ?n\<rparr>), working ?s2)"
    by (simp add: active)
  have n: "?n = length (filter (\<lambda>x. uid_exists ?s2 (entry_uid (snd x))) ?xs2)"
    by (simp add: uid_exists_uids pair_key_def)
  from r2 checked have first: "fetch_all_topics lower net now2 d1 =
      (Inr \<lparr>topics_checked = topics_checked st1, posts_created = 0, duplicates = ?n\<rparr>, d1)"
    by (simp add: SessionLocal_def)
  have second: "posts_created st1
                  = length (filter (\<lambda>x. should_keep_entry lower (snd x) (topic_keywords (fst x))) ?xs1)
                \<and> duplicates st1 = 0 \<and> ?n = posts_created st1"
    if dist: "distinct (map (\<lambda>x. entry_uid (snd x)) ?xs1)"
      and fresh: "\<forall>x \<in> set ?xs1. \<not> uid_exists (SessionLocal d) (entry_uid (snd x))"
  proof -
    let ?ks = "map (pair_key lower) ?xs1"
    let ?U = "uids (SessionLocal d)"
    from dist have dk: "distinct (map (\<lambda>x. fst (pair_key lower x)) ?xs1)"
      by (simp add: pair_key_def)
    from fresh have fk: "\<forall>x \<in> set ?xs1. fst (pair_key lower x) \<notin> ?U"
      by (simp add: pair_key_def uid_exists_uids)
    from process_pairs_fresh [OF run1 dk fk]
    have us: "uids s1 = ?U \<union> (\<lambda>x. fst (pair_key lower x)) ` {x \<in> set ?xs1. snd (pair_key lower x)}"
      and created: "posts_created st1 = length (filter (\<lambda>x. snd (pair_key lower x)) ?xs1)"
      and dups: "duplicates st1 = 0"
      by simp_all
    have img: "(\<lambda>x. fst (pair_key lower x)) ` {x \<in> set ?xs1. snd (pair_key lower x)}
                 = fst ` {k \<in> set ?ks. snd k}"
      by auto
    from dk have dk': "distinct (map fst ?ks)" by (simp add: comp_def)
    from fk have fk': "\<forall>k \<in> set ?ks. fst k \<notin> ?U" by simp
    have "?n = length (filter (\<lambda>k. fst k \<in> uids ?s2) (map (pair_key lower) ?xs2))"
      by (rule length_filter_keys)
    also have "\<dots> = length (filter (\<lambda>k. fst k \<in> ?U \<union> fst ` {k \<in> set ?ks. snd k}) ?ks)"
      by (simp only: keys u2 us img)
    also have "\<dots> = length (filter snd ?ks)"
      by (simp only: filter_fresh_keys [OF dk' fk'])
    also have "\<dots> = length (filter (\<lambda>x. snd (pair_key lower x)) ?xs1)"
      by (rule length_filter_keys [symmetric])
    finally have "?n = posts_created st1" using created by simp
    with created dups show ?thesis by (simp add: pair_key_def)
  qed
  from first n second show ?thesis by auto
qed

theorem second_run_creates_nothing_witness:
  "fetch_all_topics sample_lower example_net 0 example_db
     = (Inr \<lparr>topics_checked = 1, posts_created = 1, duplicates = 0\<rparr>, ingested_db)
   \<and> distinct (map (\<lambda>x. entry_uid (snd x)) (run_pairs sample_lower example_net 0 example_db))
   \<and> list_all (\<lambda>x. \<not> uid_exists (SessionLocal example_db) (entry_uid (snd x)))
        (run_pairs sample_lower example_net 0 example_db)
   \<and> length (run_pairs sample_lower example_net 0 example_db) = 2
   \<and> fetch_all_topics sample_lower example_net 300 ingested_db
     = (Inr \<lparr>topics_checked = 1, posts_created = 0, duplicates = 1\<rparr>, ingested_db)"
proof -
  have r: "fetch_all_topics sample_lower example_net 0 example_db
             = (Inr \<lparr>topics_checked = 1, posts_created = 1, duplicates = 0\<rparr>, ingested_db)"
    by code_simp
  have a: "distinct (map (\<lambda>x. entry_uid (snd x)) (run_pairs sample_lower example_net 0 example_db))"
    by code_simp
  have b: "list_all (\<lambda>x. \<not> uid_exists (SessionLocal example_db) (entry_uid (snd x)))
             (run_pairs sample_lower example_net 0 example_db)"
    by code_simp
  have c: "length (run_pairs sample_lower example_net 0 example_db) = 2"
    by code_simp
  from b have b': "\<forall>x \<in> set (run_pairs sample_lower example_net 0 example_db).
                     \<not> uid_exists (SessionLocal example_db) (entry_uid (snd x))"
    by (simp only: list_all_iff)
  from second_run_creates_nothing [OF r, of 300] a b'
  have "fetch_all_topics sample_lower example_net 300 ingested_db =
          (Inr \<lparr>topics_checked =
                  topics_checked \<lparr>topics_checked = 1, posts_created = 1, duplicates = 0\<rparr>,
                posts_created = 0,
                duplicates =
                  posts_created \<lparr>topics_checked = 1, posts_created = 1, duplicates = 0\<rparr>\<rparr>,
           ingested_db)"
    by blast
  then have "fetch_all_topics sample_lower example_net 300 ingested_db
     = (Inr \<lparr>topics_checked = 1, posts_created = 0, duplicates = 1\<rparr>, ingested_db)"
    by simp
  with r a b c show ?thesis by blast
qed

theorem shared_feed_counterexample:
  "fst (fetch_all_topics sample_lower example_net 0 shared_feed_db)
     = Inr \<lparr>topics_checked = 2, posts_created = 2, duplicates = 1\<rparr>
   \<and> fst (fetch_all_topics sample_lower example_net 300 (snd (fetch_all_topics sample_lower example_net 0 shared_feed_db)))
     = Inr \<lparr>topics_checked = 2, posts_created = 0, duplicates = 4\<rparr>"
  by code_simp

end
